theory Spec2Isabelle
  imports Main "HOL-Library.Multiset" "HOL-Library.Code_Target_Numeral"
begin

section \<open>JavaScript values\<close>

text \<open>
  Identifiers (task id, session id) are primitive JavaScript values. On these the strict
  comparison \<^verbatim>\<open>!==\<close> of the source is plain inequality. Numbers are the integers
  (no NaN, no fractions).
\<close>

datatype prim = PUndefined | PNull | PBool bool | PNum int | PStr string

text \<open>
  Event types, payloads and the event objects themselves. An object is the list of its
  own properties in insertion order. \<open>JBigInt\<close> stands for the values on which
  \<^verbatim>\<open>JSON.stringify\<close> throws.
\<close>

datatype jsval =
    JUndefined
  | JNull
  | JBool bool
  | JNum int
  | JStr string
  | JBigInt int
  | JArr "jsval list"
  | JObj "(string \<times> jsval) list"

fun of_prim :: "prim \<Rightarrow> jsval" where
  "of_prim PUndefined = JUndefined"
| "of_prim PNull = JNull"
| "of_prim (PBool b) = JBool b"
| "of_prim (PNum n) = JNum n"
| "of_prim (PStr s) = JStr s"

text \<open>Truthiness, as \<^verbatim>\<open>if (x)\<close>, \<^verbatim>\<open>!x\<close>, \<^verbatim>\<open>x && y\<close> and \<^verbatim>\<open>x || y\<close> test it.\<close>

fun truthy_prim :: "prim \<Rightarrow> bool" where
  "truthy_prim PUndefined = False"
| "truthy_prim PNull = False"
| "truthy_prim (PBool b) = b"
| "truthy_prim (PNum n) = (n \<noteq> 0)"
| "truthy_prim (PStr s) = (s \<noteq> [])"

fun truthy :: "jsval \<Rightarrow> bool" where
  "truthy JUndefined = False"
| "truthy JNull = False"
| "truthy (JBool b) = b"
| "truthy (JNum n) = (n \<noteq> 0)"
| "truthy (JStr s) = (s \<noteq> [])"
| "truthy (JBigInt n) = (n \<noteq> 0)"
| "truthy (JArr vs) = True"
| "truthy (JObj ps) = True"

text \<open>Property read \<^verbatim>\<open>e.k\<close>: \<^verbatim>\<open>undefined\<close> when the object has no such property.\<close>

fun getprop :: "jsval \<Rightarrow> string \<Rightarrow> jsval" where
  "getprop (JObj ps) k = (case map_of ps k of Some v \<Rightarrow> v | None \<Rightarrow> JUndefined)"
| "getprop v k = JUndefined"

fun keys :: "jsval \<Rightarrow> string list" where
  "keys (JObj ps) = map fst ps"
| "keys v = []"

section \<open>The platform\<close>

text \<open>
  What the tracker reads from the browser and does not define itself:
  \<^verbatim>\<open>location.pathname\<close>, \<^verbatim>\<open>navigator.userAgent\<close>, \<^verbatim>\<open>JSON.stringify\<close>
  (\<open>None\<close> when it throws; the string is its UTF-8 bytes, so its length is the size of the
  \<^verbatim>\<open>Blob\<close> made from it), \<^verbatim>\<open>Date.prototype.toISOString\<close> on an instant given in
  milliseconds, and whether \<^verbatim>\<open>navigator.sendBeacon\<close> exists.
\<close>

record env =
  pathname :: string
  userAgent :: string
  stringify :: "jsval \<Rightarrow> string option"
  toISOString :: "int \<Rightarrow> string"
  sendBeacon :: bool

section \<open>Configuration\<close>

definition FLUSH_INTERVAL_MS :: nat where "FLUSH_INTERVAL_MS = 5000"
definition MAX_BATCH_SIZE :: nat where "MAX_BATCH_SIZE = 30"
definition HEARTBEAT_SEC :: nat where "HEARTBEAT_SEC = 10"
definition MAX_PAYLOAD_BYTES :: nat where "MAX_PAYLOAD_BYTES = 30000"

section \<open>State\<close>

record counters =
  copy :: nat
  paste :: nat
  cut_n :: nat
  tab_hidden :: nat
  blur :: nat

text \<open>
  Time is the instant \<^verbatim>\<open>Date.now()\<close> returns, in milliseconds; every function below
  takes the instant \<open>now\<close> of the turn it runs in, and the clock readings of one turn
  are taken to be equal.

  The module's variables, followed by the part of the browser the module acts on: the
  pending \<^verbatim>\<open>setTimeout(flush, d)\<close> entries as (id, delay), the pending
  \<^verbatim>\<open>setInterval(heartbeat, p)\<close> entries as (id, period), the next timer id, the batch
  held by every \<^verbatim>\<open>flush\<close> call that is waiting at its \<^verbatim>\<open>await fetch\<close>, and every
  payload object whose serialization was handed to \<^verbatim>\<open>fetch\<close> or \<^verbatim>\<open>sendBeacon\<close>.
\<close>

record state =
  currentTaskId :: prim
  currentSessionId :: prim
  lastTaskOpenedAt :: int
  queue :: "jsval list"
  lastFlushAt :: int
  flushTimer :: "nat option"
  heartbeatTimer :: "nat option"
  minuteWindowStart :: int
  counters :: counters
  timeouts :: "(nat \<times> nat) list"
  intervals :: "(nat \<times> nat) list"
  nextTimer :: nat
  inflight :: "jsval list list"
  outbox :: "jsval list"

definition no_counts :: counters where
  "no_counts = \<lparr>copy = 0, paste = 0, cut_n = 0, tab_hidden = 0, blur = 0\<rparr>"

text \<open>The state after the script has loaded at instant \<open>t0\<close>.\<close>

definition init :: "int \<Rightarrow> state" where
  "init t0 =
     \<lparr>currentTaskId = PNull, currentSessionId = PNull, lastTaskOpenedAt = t0,
      queue = [], lastFlushAt = 0, flushTimer = None, heartbeatTimer = None,
      minuteWindowStart = t0, counters = no_counts,
      timeouts = [], intervals = [], nextTimer = 1, inflight = [], outbox = []\<rparr>"

section \<open>Timers\<close>

text \<open>\<^verbatim>\<open>flushTimer = setTimeout(flush, d)\<close>: timer ids are fresh positive integers.\<close>

definition setFlushTimer :: "nat \<Rightarrow> state \<Rightarrow> state" where
  "setFlushTimer d s =
     s\<lparr>flushTimer := Some (nextTimer s),
       timeouts := timeouts s @ [(nextTimer s, d)],
       nextTimer := nextTimer s + 1\<rparr>"

definition clearTimeout :: "nat \<Rightarrow> state \<Rightarrow> state" where
  "clearTimeout t s = s\<lparr>timeouts := filter (\<lambda>p. fst p \<noteq> t) (timeouts s)\<rparr>"

definition clearInterval :: "nat \<Rightarrow> state \<Rightarrow> state" where
  "clearInterval t s = s\<lparr>intervals := filter (\<lambda>p. fst p \<noteq> t) (intervals s)\<rparr>"

section \<open>Rate limiter\<close>

definition resetMinuteWindowIfNeeded :: "int \<Rightarrow> state \<Rightarrow> state" where
  "resetMinuteWindowIfNeeded now s =
     (if now - minuteWindowStart s \<ge> 60000
      then s\<lparr>minuteWindowStart := now, counters := no_counts\<rparr>
      else s)"

text \<open>
  The five guards at the head of \<^verbatim>\<open>pushEvent\<close>. Each is
  \<^verbatim>\<open>type === T && counters.T++ > cap\<close>: the counter is read, then incremented, and
  the value read is compared. The result is whether \<^verbatim>\<open>pushEvent\<close> returns there.
\<close>

definition capped :: "jsval \<Rightarrow> state \<Rightarrow> bool \<times> state" where
  "capped ty s =
     (let c = counters s in
      if ty = JStr ''copy'' then (copy c > 40, s\<lparr>counters := c\<lparr>copy := copy c + 1\<rparr>\<rparr>)
      else if ty = JStr ''paste'' then (paste c > 60, s\<lparr>counters := c\<lparr>paste := paste c + 1\<rparr>\<rparr>)
      else if ty = JStr ''cut'' then (cut_n c > 40, s\<lparr>counters := c\<lparr>cut_n := cut_n c + 1\<rparr>\<rparr>)
      else if ty = JStr ''tab_hidden''
        then (tab_hidden c > 30, s\<lparr>counters := c\<lparr>tab_hidden := tab_hidden c + 1\<rparr>\<rparr>)
      else if ty = JStr ''blur'' then (blur c > 60, s\<lparr>counters := c\<lparr>blur := blur c + 1\<rparr>\<rparr>)
      else (False, s))"

section \<open>Queue and flush\<close>

text \<open>The object literal that \<^verbatim>\<open>pushEvent\<close> appends to the queue.\<close>

definition event :: "env \<Rightarrow> int \<Rightarrow> jsval \<Rightarrow> jsval \<Rightarrow> state \<Rightarrow> jsval" where
  "event e now ty payload s =
     JObj [(''ts'', JStr (toISOString e now)),
           (''type'', ty),
           (''task_id'', of_prim (currentTaskId s)),
           (''session_id'', of_prim (currentSessionId s)),
           (''payload'', if truthy payload then payload else JObj []),
           (''page'', JStr (pathname e)),
           (''ua'', JStr (userAgent e))]"

definition approxByteSize :: "env \<Rightarrow> jsval \<Rightarrow> nat" where
  "approxByteSize e obj = (case stringify e obj of Some b \<Rightarrow> length b | None \<Rightarrow> 0)"

text \<open>The object that \<^verbatim>\<open>batch.map\<close> builds from an event when the payload is too big.\<close>

definition trimmed :: "jsval \<Rightarrow> jsval" where
  "trimmed ev =
     JObj [(''ts'', getprop ev ''ts''),
           (''type'', getprop ev ''type''),
           (''task_id'', getprop ev ''task_id''),
           (''session_id'', getprop ev ''session_id''),
           (''payload'', JObj [(''note'', JStr ''trimmed'')]),
           (''page'', getprop ev ''page'')]"

definition events_payload :: "jsval list \<Rightarrow> jsval" where
  "events_payload evs = JObj [(''events'', JArr evs)]"

text \<open>The payload object that \<^verbatim>\<open>flush\<close> serializes for a batch.\<close>

definition payload_of :: "env \<Rightarrow> jsval list \<Rightarrow> jsval" where
  "payload_of e batch =
     (if approxByteSize e (events_payload batch) > MAX_PAYLOAD_BYTES
      then events_payload (map trimmed batch)
      else events_payload batch)"

text \<open>The \<^verbatim>\<open>catch\<close> block of \<^verbatim>\<open>flush\<close>, run with the batch the call had removed.\<close>

definition flush_catch :: "jsval list \<Rightarrow> state \<Rightarrow> state" where
  "flush_catch batch s =
     (let s1 = s\<lparr>queue := batch @ queue s\<rparr>;
          s2 = (case flushTimer s1 of Some t \<Rightarrow> clearTimeout t s1 | None \<Rightarrow> s1)
      in setFlushTimer 9000 s2)"

text \<open>
  \<^verbatim>\<open>flush(useBeacon)\<close> up to the point where it returns or suspends at \<^verbatim>\<open>await\<close>.
  Both transports serialize the payload inside the \<^verbatim>\<open>try\<close>; when that throws, the
  \<^verbatim>\<open>catch\<close> block runs at once. Otherwise the payload leaves through the beacon, or
  through \<^verbatim>\<open>fetch\<close>, and then the call keeps its batch until the request settles.
\<close>

definition flush :: "env \<Rightarrow> int \<Rightarrow> bool \<Rightarrow> state \<Rightarrow> state" where
  "flush e now useBeacon s =
     (if queue s = [] then s
      else
        let batch = take MAX_BATCH_SIZE (queue s);
            s1 = s\<lparr>queue := drop MAX_BATCH_SIZE (queue s)\<rparr>;
            payload = payload_of e batch;
            s2 = s1\<lparr>lastFlushAt := now\<rparr>
        in case stringify e payload of
             None \<Rightarrow> flush_catch batch s2
           | Some body \<Rightarrow>
               if useBeacon \<and> sendBeacon e
               then s2\<lparr>outbox := outbox s2 @ [payload]\<rparr>
               else s2\<lparr>outbox := outbox s2 @ [payload], inflight := inflight s2 @ [batch]\<rparr>)"

text \<open>The request of the \<open>i\<close>-th waiting \<^verbatim>\<open>flush\<close> call settles.\<close>

definition fetch_resolved :: "nat \<Rightarrow> state \<Rightarrow> state" where
  "fetch_resolved i s =
     (if i < length (inflight s)
      then s\<lparr>inflight := take i (inflight s) @ drop (Suc i) (inflight s)\<rparr>
      else s)"

definition fetch_rejected :: "nat \<Rightarrow> state \<Rightarrow> state" where
  "fetch_rejected i s =
     (if i < length (inflight s)
      then flush_catch (inflight s ! i)
             (s\<lparr>inflight := take i (inflight s) @ drop (Suc i) (inflight s)\<rparr>)
      else s)"

definition pushEvent :: "env \<Rightarrow> int \<Rightarrow> jsval \<Rightarrow> jsval \<Rightarrow> state \<Rightarrow> state" where
  "pushEvent e now ty payload s =
     (let s1 = resetMinuteWindowIfNeeded now s;
          (dropped, s2) = capped ty s1
      in if dropped then s2
         else
           let s3 = s2\<lparr>queue := queue s2 @ [event e now ty payload s2]\<rparr>;
               s4 = (if flushTimer s3 = None then setFlushTimer FLUSH_INTERVAL_MS s3 else s3)
           in if length (queue s4) \<ge> MAX_BATCH_SIZE then flush e now False s4 else s4)"

text \<open>A pending flush timer fires: the browser drops the entry and calls \<^verbatim>\<open>flush()\<close>.\<close>

definition timeout_fires :: "env \<Rightarrow> int \<Rightarrow> nat \<Rightarrow> state \<Rightarrow> state" where
  "timeout_fires e now t s =
     (if t \<in> fst ` set (timeouts s) then flush e now False (clearTimeout t s) else s)"

section \<open>Heartbeat and context\<close>

text \<open>
  \<^verbatim>\<open>Math.max(0, Math.round((now - opened) / 1000))\<close>: \<^verbatim>\<open>Math.round\<close> takes the
  nearest integer and, half way, the larger one.
\<close>

definition elapsed_seconds :: "int \<Rightarrow> int \<Rightarrow> int" where
  "elapsed_seconds now opened = max 0 ((now - opened + 500) div 1000)"

definition heartbeat :: "env \<Rightarrow> int \<Rightarrow> state \<Rightarrow> state" where
  "heartbeat e now s =
     (if \<not> truthy_prim (currentTaskId s) then s
      else pushEvent e now (JStr ''heartbeat'')
             (JObj [(''seconds_on_task'', JNum (elapsed_seconds now (lastTaskOpenedAt s)))]) s)"

definition stopHeartbeat :: "state \<Rightarrow> state" where
  "stopHeartbeat s =
     (case heartbeatTimer s of
        Some t \<Rightarrow> (clearInterval t s)\<lparr>heartbeatTimer := None\<rparr>
      | None \<Rightarrow> s)"

definition startHeartbeat :: "state \<Rightarrow> state" where
  "startHeartbeat s =
     (let s1 = stopHeartbeat s
      in s1\<lparr>heartbeatTimer := Some (nextTimer s1),
            intervals := intervals s1 @ [(nextTimer s1, HEARTBEAT_SEC * 1000)],
            nextTimer := nextTimer s1 + 1\<rparr>)"

text \<open>
  The argument of \<^verbatim>\<open>setContext\<close> is destructured as \<^verbatim>\<open>{ sessionId, taskId }\<close>: on
  \<^verbatim>\<open>undefined\<close> (no argument) and \<^verbatim>\<open>null\<close> that throws a TypeError before the body
  runs; on anything else the two properties are read, \<^verbatim>\<open>undefined\<close> when absent.
\<close>

datatype context_arg = Nullish | Context prim prim

datatype error = TypeError

definition setContext :: "env \<Rightarrow> int \<Rightarrow> context_arg \<Rightarrow> state \<Rightarrow> error + state" where
  "setContext e now arg s =
     (case arg of
        Nullish \<Rightarrow> Inl TypeError
      | Context sessionId taskId \<Rightarrow>
          let s1 = (if sessionId \<noteq> PUndefined then s\<lparr>currentSessionId := sessionId\<rparr> else s);
              s2 = (if taskId \<noteq> PUndefined
                    then
                      let s' = (if truthy_prim (currentTaskId s1) \<and> currentTaskId s1 \<noteq> taskId
                                then pushEvent e now (JStr ''task_switch'')
                                       (JObj [(''from_task_id'', of_prim (currentTaskId s1)),
                                              (''to_task_id'', of_prim taskId),
                                              (''seconds_spent'',
                                                 JNum (elapsed_seconds now (lastTaskOpenedAt s1)))])
                                       s1
                                else s1)
                      in s'\<lparr>currentTaskId := taskId, lastTaskOpenedAt := now\<rparr>
                    else s1)
          in Inr (startHeartbeat s2))"

section \<open>Public interface and event loop\<close>

datatype call = SetContext context_arg | Log jsval jsval | Flush

text \<open>\<^verbatim>\<open>window.StudentActivityTracker\<close>: the result is \<open>Inl\<close> when the call throws.\<close>

fun tracker :: "env \<Rightarrow> int \<Rightarrow> call \<Rightarrow> state \<Rightarrow> error + state" where
  "tracker e now (SetContext arg) s = setContext e now arg s"
| "tracker e now (Log ty payload) s = Inr (pushEvent e now ty payload s)"
| "tracker e now Flush s = Inr (flush e now False s)"

text \<open>
  One turn of the event loop: a call from the host page (an exception leaves the state as
  it was: \<^verbatim>\<open>setContext\<close> throws before it assigns anything), a flush timer firing, a
  heartbeat interval firing, a request settling, or the page unloading. The listeners for
  copy, cut, paste, visibility change, blur and focus each make one \<^verbatim>\<open>pushEvent\<close>
  call, which is what \<^verbatim>\<open>log\<close> does, so a \<open>Log\<close> turn stands for them as well.
\<close>

datatype turn =
    Call call
  | TimeoutFires nat
  | HeartbeatFires
  | FetchResolved nat
  | FetchRejected nat
  | BeforeUnload

fun step :: "env \<Rightarrow> int \<Rightarrow> turn \<Rightarrow> state \<Rightarrow> state" where
  "step e now (Call c) s = (case tracker e now c s of Inl err \<Rightarrow> s | Inr s' \<Rightarrow> s')"
| "step e now (TimeoutFires t) s = timeout_fires e now t s"
| "step e now HeartbeatFires s = (if intervals s = [] then s else heartbeat e now s)"
| "step e now (FetchResolved i) s = fetch_resolved i s"
| "step e now (FetchRejected i) s = fetch_rejected i s"
| "step e now BeforeUnload s =
     stopHeartbeat (flush e now True (pushEvent e now (JStr ''exit'') (JObj []) s))"

fun run :: "env \<Rightarrow> (int \<times> turn) list \<Rightarrow> state \<Rightarrow> state" where
  "run e [] s = s"
| "run e ((now, t) # ts) s = run e ts (step e now t s)"

section \<open>A concrete platform\<close>

text \<open>
  A browser to run the tracker on: \<^verbatim>\<open>JSON.stringify\<close> and \<^verbatim>\<open>toISOString\<close> written
  out for the values above. Strings are UTF-8 bytes.
\<close>

definition digit :: "nat \<Rightarrow> char" where
  "digit n = ''0123456789abcdef'' ! n"

fun dec :: "nat \<Rightarrow> string" where
  "dec n = (if n < 10 then [digit n] else dec (n div 10) @ [digit (n mod 10)])"

declare dec.simps [simp del]

text \<open>
  \<^verbatim>\<open>Number.prototype.toString\<close> on an integer. Up to \<open>2\<^sup>5\<^sup>3\<close> in size the number is
  the integer and all its digits are written. Beyond, the number is the double nearest
  to the integer (ties to even); written are the fewest digits \<open>s\<close> (at most 17) that
  denote it, among two such the nearer, followed by zeros while the number has at most
  21 digits and in exponent form from there on. A number too large for a double is
  \<^verbatim>\<open>Infinity\<close>, which \<^verbatim>\<open>JSON.stringify\<close> writes as \<^verbatim>\<open>null\<close>.
\<close>

fun bits :: "nat \<Rightarrow> nat" where
  "bits n = (if n = 0 then 0 else Suc (bits (n div 2)))"

declare bits.simps [simp del]

definition round_even :: "nat \<Rightarrow> nat \<Rightarrow> nat \<Rightarrow> nat" where
  "round_even q r half = (if half < r \<or> (r = half \<and> odd q) then q + 1 else q)"

definition round_bits :: "nat \<Rightarrow> nat \<Rightarrow> nat" where
  "round_bits sh n = round_even (n div 2 ^ sh) (n mod 2 ^ sh) (2 ^ (sh - 1)) * 2 ^ sh"

definition to_double :: "nat \<Rightarrow> nat" where
  "to_double n = (if bits n \<le> 53 then n else round_bits (bits n - 53) n)"

definition nearer :: "nat \<Rightarrow> nat \<Rightarrow> nat \<Rightarrow> nat" where
  "nearer x unit s =
     (if x - s * unit < (s + 1) * unit - x then s
      else if (s + 1) * unit - x < x - s * unit then s + 1
      else if even s then s else s + 1)"

definition denotes :: "nat \<Rightarrow> nat \<Rightarrow> nat \<Rightarrow> nat \<Rightarrow> bool" where
  "denotes x unit k s = (10 ^ (k - 1) \<le> s \<and> s < 10 ^ k \<and> to_double (s * unit) = x)"

definition pick :: "nat \<Rightarrow> nat \<Rightarrow> nat \<Rightarrow> nat option" where
  "pick x unit k =
     (if denotes x unit k (x div unit) \<and> denotes x unit k (x div unit + 1)
        then Some (nearer x unit (x div unit))
      else if denotes x unit k (x div unit) then Some (x div unit)
      else if denotes x unit k (x div unit + 1) then Some (x div unit + 1)
      else None)"

fun shortest :: "nat \<Rightarrow> nat \<Rightarrow> nat list \<Rightarrow> nat" where
  "shortest x len [] = x"
| "shortest x len (k # ks) =
     (case pick x (10 ^ (len - k)) k of Some s \<Rightarrow> s | None \<Rightarrow> shortest x len ks)"

definition exponent_form :: "string \<Rightarrow> nat \<Rightarrow> string" where
  "exponent_form ds n =
     (if length ds = 1 then ds else hd ds # ''.'' @ tl ds) @ ''e+'' @ dec (n - 1)"

definition written :: "string \<Rightarrow> nat \<Rightarrow> string" where
  "written ds n =
     (if n \<le> 21 then ds @ replicate (n - length ds) CHR ''0'' else exponent_form ds n)"

definition double_string :: "nat \<Rightarrow> string" where
  "double_string x =
     (if to_double (10 ^ length (dec x)) = x then written ''1'' (length (dec x) + 1)
      else written (dec (shortest x (length (dec x)) [1..<18])) (length (dec x)))"

definition signed :: "int \<Rightarrow> string \<Rightarrow> string" where
  "signed i ds = (if i < 0 then CHR ''-'' # ds else ds)"

definition json_number :: "int \<Rightarrow> string" where
  "json_number i =
     (if \<bar>i\<bar> \<le> 2 ^ 53 then signed i (dec (nat \<bar>i\<bar>))
      else if 2 ^ 1024 \<le> to_double (nat \<bar>i\<bar>) then ''null''
      else signed i (double_string (to_double (nat \<bar>i\<bar>))))"

text \<open>
  The quotation mark (\<open>0x22\<close>), the backslash (\<open>0x5C\<close>) and the control characters
  are escaped.
\<close>

definition json_char :: "char \<Rightarrow> string" where
  "json_char c =
     (if c = CHR 0x22 then [CHR 0x5C, CHR 0x22]
      else if c = CHR 0x5C then [CHR 0x5C, CHR 0x5C]
      else if c = CHR 0x08 then [CHR 0x5C, CHR ''b'']
      else if c = CHR 0x09 then [CHR 0x5C, CHR ''t'']
      else if c = CHR 0x0A then [CHR 0x5C, CHR ''n'']
      else if c = CHR 0x0C then [CHR 0x5C, CHR ''f'']
      else if c = CHR 0x0D then [CHR 0x5C, CHR ''r'']
      else if (of_char c :: nat) < 32
        then CHR 0x5C # ''u00'' @ [digit (of_char c div 16), digit (of_char c mod 16)]
      else [c])"

definition json_string :: "string \<Rightarrow> string" where
  "json_string s = CHR 0x22 # concat (map json_char s) @ [CHR 0x22]"

fun commas :: "string list \<Rightarrow> string" where
  "commas [] = []"
| "commas [x] = x"
| "commas (x # y # ys) = x @ '','' @ commas (y # ys)"

text \<open>
  The properties of an object are written in the order in which JavaScript enumerates
  them: those whose name is an array index (the decimal form of a number below
  \<open>2\<^sup>3\<^sup>2 - 1\<close>) first, by ascending index, then the others in insertion order.
\<close>

definition is_digit :: "char \<Rightarrow> bool" where
  "is_digit c = (48 \<le> (of_char c :: nat) \<and> (of_char c :: nat) \<le> 57)"

definition digits_value :: "string \<Rightarrow> nat" where
  "digits_value s = foldl (\<lambda>a c. 10 * a + (of_char c - 48)) 0 s"

definition array_index :: "string \<Rightarrow> nat option" where
  "array_index k =
     (if k = [] \<or> \<not> list_all is_digit k then None
      else if dec (digits_value k) = k \<and> digits_value k < 4294967295
        then Some (digits_value k)
      else None)"

definition js_order :: "(string \<times> 'a) list \<Rightarrow> (string \<times> 'a) list" where
  "js_order ps =
     sort_key (\<lambda>p. case array_index (fst p) of Some n \<Rightarrow> n | None \<Rightarrow> 0)
       (filter (\<lambda>p. array_index (fst p) \<noteq> None) ps)
     @ filter (\<lambda>p. array_index (fst p) = None) ps"

definition member :: "string \<times> string \<Rightarrow> string" where
  "member p = json_string (fst p) @ '':'' @ snd p"

text \<open>
  In an array \<^verbatim>\<open>undefined\<close> is written \<^verbatim>\<open>null\<close>; a property whose value is
  \<^verbatim>\<open>undefined\<close> is left out. (At the top, \<^verbatim>\<open>undefined\<close> is what \<^verbatim>\<open>Blob\<close> makes of
  it; the tracker serializes objects only.)
\<close>

fun json :: "jsval \<Rightarrow> string option"
  and json_elems :: "jsval list \<Rightarrow> string list option"
  and json_props :: "(string \<times> jsval) list \<Rightarrow> (string \<times> string) list option" where
  "json JUndefined = Some ''undefined''"
| "json JNull = Some ''null''"
| "json (JBool b) = Some (if b then ''true'' else ''false'')"
| "json (JNum n) = Some (json_number n)"
| "json (JStr s) = Some (json_string s)"
| "json (JBigInt n) = None"
| "json (JArr vs) = map_option (\<lambda>xs. ''['' @ commas xs @ '']'') (json_elems vs)"
| "json (JObj ps) =
     map_option (\<lambda>kxs. ''{'' @ commas (map member (js_order kxs)) @ ''}'') (json_props ps)"
| "json_elems [] = Some []"
| "json_elems (JUndefined # vs) = map_option ((#) ''null'') (json_elems vs)"
| "json_elems (v # vs) =
     (case json v of None \<Rightarrow> None | Some x \<Rightarrow> map_option ((#) x) (json_elems vs))"
| "json_props [] = Some []"
| "json_props ((k, JUndefined) # ps) = json_props ps"
| "json_props ((k, v) # ps) =
     (case json v of None \<Rightarrow> None | Some x \<Rightarrow> map_option ((#) (k, x)) (json_props ps))"

definition pad :: "nat \<Rightarrow> nat \<Rightarrow> string" where
  "pad w n = replicate (w - length (dec n)) CHR ''0'' @ dec n"

text \<open>
  Year, month and day of a day number counted from 1970-01-01 in the proleptic Gregorian
  calendar, by way of the day of the 400-year era (\<open>doe\<close>, eras starting on 1 March),
  the year of the era (\<open>yoe\<close>), the day of that year (\<open>doy\<close>) and the month counted
  from March (\<open>mp\<close>).
\<close>

definition year_of_era :: "int \<Rightarrow> int" where
  "year_of_era doe = (doe - doe div 1460 + doe div 36524 - doe div 146096) div 365"

definition day_of_year :: "int \<Rightarrow> int \<Rightarrow> int" where
  "day_of_year doe yoe = doe - (365 * yoe + yoe div 4 - yoe div 100)"

definition month_from_march :: "int \<Rightarrow> int" where
  "month_from_march doy = (5 * doy + 2) div 153"

definition civil_date :: "int \<Rightarrow> int \<Rightarrow> int \<Rightarrow> int \<Rightarrow> int \<times> nat \<times> nat" where
  "civil_date era yoe doy mp =
     (yoe + era * 400 + (if mp < 10 then 0 else 1),
      nat (if mp < 10 then mp + 3 else mp - 9),
      nat (doy - (153 * mp + 2) div 5 + 1))"

definition civil_of_year :: "int \<Rightarrow> int \<Rightarrow> int \<Rightarrow> int \<times> nat \<times> nat" where
  "civil_of_year era yoe doy = civil_date era yoe doy (month_from_march doy)"

definition civil_of_era :: "int \<Rightarrow> int \<Rightarrow> int \<Rightarrow> int \<times> nat \<times> nat" where
  "civil_of_era era doe yoe = civil_of_year era yoe (day_of_year doe yoe)"

definition civil :: "int \<Rightarrow> int \<times> nat \<times> nat" where
  "civil days =
     civil_of_era ((days + 719468) div 146097) ((days + 719468) mod 146097)
       (year_of_era ((days + 719468) mod 146097))"

definition iso_year :: "int \<Rightarrow> string" where
  "iso_year y =
     (if 0 \<le> y \<and> y \<le> 9999 then pad 4 (nat y)
      else if y < 0 then CHR ''-'' # pad 6 (nat (- y))
      else CHR ''+'' # pad 6 (nat y))"

fun iso_date :: "int \<times> nat \<times> nat \<Rightarrow> string" where
  "iso_date (y, m, d) = iso_year y @ ''-'' @ pad 2 m @ ''-'' @ pad 2 d"

definition iso_time :: "nat \<Rightarrow> string" where
  "iso_time r =
     pad 2 (r div 3600000) @ '':'' @ pad 2 (r div 60000 mod 60) @ '':''
     @ pad 2 (r div 1000 mod 60) @ ''.'' @ pad 3 (r mod 1000)"

definition iso :: "int \<Rightarrow> string" where
  "iso t = iso_date (civil (t div 86400000)) @ ''T'' @ iso_time (nat (t mod 86400000)) @ ''Z''"

definition browser :: env where
  "browser =
     \<lparr>pathname = ''/tasks/7'', userAgent = ''Mozilla/5.0'',
      stringify = json, toISOString = iso, sendBeacon = True\<rparr>"

section \<open>Observations\<close>

text \<open>
  The events the tracker holds: those of the batches whose requests have not settled, in
  the order the requests were made, followed by the queue.
\<close>

definition held :: "state \<Rightarrow> jsval list" where
  "held s = concat (inflight s) @ queue s"

text \<open>The table of thresholds, as the specification gives it.\<close>

definition caps :: "(string \<times> nat) list" where
  "caps = [(''copy'', 40), (''paste'', 60), (''cut'', 40), (''tab_hidden'', 30), (''blur'', 60)]"

definition counter :: "string \<Rightarrow> counters \<Rightarrow> nat" where
  "counter t c =
     (if t = ''copy'' then copy c else if t = ''paste'' then paste c
      else if t = ''cut'' then cut_n c else if t = ''tab_hidden'' then tab_hidden c
      else if t = ''blur'' then blur c else 0)"

text \<open>Whether a push at \<open>now\<close> gets past the guards.\<close>

definition admitted :: "int \<Rightarrow> jsval \<Rightarrow> state \<Rightarrow> bool" where
  "admitted now ty s = (\<not> fst (capped ty (resetMinuteWindowIfNeeded now s)))"

text \<open>
  The submissions of type \<open>t\<close> in a series of turns: the \<^verbatim>\<open>pushEvent(t, p)\<close> calls,
  made by \<^verbatim>\<open>log\<close> and by the listeners. (The pushes that \<^verbatim>\<open>setContext\<close>, the
  heartbeat and the unload handler make have types of their own.)
\<close>

fun is_log :: "string \<Rightarrow> turn \<Rightarrow> bool" where
  "is_log t (Call (Log ty p)) = (ty = JStr t)"
| "is_log t tn = False"

definition submissions :: "string \<Rightarrow> (int \<times> turn) list \<Rightarrow> nat" where
  "submissions t ts = length (filter (\<lambda>x. is_log t (snd x)) ts)"

text \<open>The first assignment of \<^verbatim>\<open>setContext\<close>: the session id, when one is given.\<close>

definition with_session :: "prim \<Rightarrow> state \<Rightarrow> state" where
  "with_session sessionId s =
     (if sessionId \<noteq> PUndefined then s\<lparr>currentSessionId := sessionId\<rparr> else s)"

text \<open>The state of \<^verbatim>\<open>pushEvent\<close> when it reaches its last line, for an admitted event.\<close>

definition appended :: "env \<Rightarrow> int \<Rightarrow> jsval \<Rightarrow> jsval \<Rightarrow> state \<Rightarrow> state" where
  "appended e now ty p s =
     (let s2 = snd (capped ty (resetMinuteWindowIfNeeded now s));
          s3 = s2\<lparr>queue := queue s2 @ [event e now ty p s2]\<rparr>
      in if flushTimer s3 = None then setFlushTimer FLUSH_INTERVAL_MS s3 else s3)"





text \<open>
  The property names of a queued event and of a trimmed one, the same without
  \<^verbatim>\<open>type\<close>, and the placeholder.
\<close>

definition event_keys :: "string list" where
  "event_keys = [''ts'', ''type'', ''task_id'', ''session_id'', ''payload'', ''page'', ''ua'']"

definition event_keys_untyped :: "string list" where
  "event_keys_untyped = [''ts'', ''task_id'', ''session_id'', ''payload'', ''page'', ''ua'']"

definition trimmed_keys :: "string list" where
  "trimmed_keys = [''ts'', ''type'', ''task_id'', ''session_id'', ''payload'', ''page'']"

definition trimmed_keys_untyped :: "string list" where
  "trimmed_keys_untyped = [''ts'', ''task_id'', ''session_id'', ''payload'', ''page'']"

definition marker :: jsval where
  "marker = JObj [(''note'', JStr ''trimmed'')]"

text \<open>
  The property names that \<^verbatim>\<open>JSON.stringify\<close> writes for an object: it leaves out
  every property whose value is \<^verbatim>\<open>undefined\<close>. These are the fields of the object in
  the request body.
\<close>

fun sent_keys :: "jsval \<Rightarrow> string list" where
  "sent_keys (JObj ps) = map fst (filter (\<lambda>p. snd p \<noteq> JUndefined) ps)"
| "sent_keys v = []"

text \<open>\<^verbatim>\<open>payload.events\<close> of a delivered payload object.\<close>

definition events_of :: "jsval \<Rightarrow> jsval list" where
  "events_of p = (case getprop p ''events'' of JArr evs \<Rightarrow> evs | _ \<Rightarrow> [])"

text \<open>
  What holds in every state the tracker reaches: a pending flush timer is the one in
  \<^verbatim>\<open>flushTimer\<close>; the task id and the session id are never \<^verbatim>\<open>undefined\<close>; every event
  held has the seven properties of the literal in \<^verbatim>\<open>pushEvent\<close>, none but \<^verbatim>\<open>type\<close>
  with the value \<^verbatim>\<open>undefined\<close>; every payload that left was serialized and holds one
  batch, untrimmed or trimmed.
\<close>

definition timers_ok :: "state \<Rightarrow> bool" where
  "timers_ok s = (\<forall>p \<in> set (timeouts s). flushTimer s = Some (fst p))"

definition wf_event :: "jsval \<Rightarrow> bool" where
  "wf_event ev =
     (keys ev = event_keys
      \<and> (\<forall>k \<in> set event_keys_untyped. getprop ev k \<noteq> JUndefined))"

definition wf_trimmed :: "jsval \<Rightarrow> bool" where
  "wf_trimmed ev =
     (keys ev = trimmed_keys \<and> getprop ev ''payload'' = marker
      \<and> (\<forall>k \<in> set trimmed_keys_untyped. getprop ev k \<noteq> JUndefined))"

definition events_ok :: "state \<Rightarrow> bool" where
  "events_ok s =
     (currentTaskId s \<noteq> PUndefined \<and> currentSessionId s \<noteq> PUndefined
      \<and> (\<forall>ev \<in> set (held s). wf_event ev))"

definition wf_payload :: "env \<Rightarrow> jsval \<Rightarrow> bool" where
  "wf_payload e p =
     (p = JObj [(''events'', JArr (events_of p))]
      \<and> events_of p \<noteq> [] \<and> length (events_of p) \<le> 30
      \<and> ((\<forall>ev \<in> set (events_of p). wf_event ev)
           \<and> (case stringify e p of Some body \<Rightarrow> length body \<le> 30000 | None \<Rightarrow> False)
          \<or> (\<forall>ev \<in> set (events_of p). wf_trimmed ev) \<and> stringify e p \<noteq> None))"

definition outbox_ok :: "env \<Rightarrow> state \<Rightarrow> bool" where
  "outbox_ok e s = (\<forall>p \<in> set (outbox s). wf_payload e p)"

definition inv :: "env \<Rightarrow> state \<Rightarrow> bool" where
  "inv e s = (timers_ok s \<and> events_ok s \<and> outbox_ok e s)"

section \<open>Basic facts\<close>

lemma flush_catch_fields [simp]:
  "queue (flush_catch b s) = b @ queue s"
  "inflight (flush_catch b s) = inflight s"
  "outbox (flush_catch b s) = outbox s"
  "counters (flush_catch b s) = counters s"
  "minuteWindowStart (flush_catch b s) = minuteWindowStart s"
  "currentTaskId (flush_catch b s) = currentTaskId s"
  "currentSessionId (flush_catch b s) = currentSessionId s"
  "lastTaskOpenedAt (flush_catch b s) = lastTaskOpenedAt s"
  "heartbeatTimer (flush_catch b s) = heartbeatTimer s"
  "intervals (flush_catch b s) = intervals s"
  "flushTimer (flush_catch b s) = Some (nextTimer s)"
  "nextTimer (flush_catch b s) = nextTimer s + 1"
  "timeouts (flush_catch b s) =
     filter (\<lambda>p. Some (fst p) \<noteq> flushTimer s) (timeouts s) @ [(nextTimer s, 9000)]"
  by (simp_all add: flush_catch_def setFlushTimer_def clearTimeout_def Let_def
      split: option.splits)

lemma flush_fields [simp]:
  "counters (flush e now b s) = counters s"
  "minuteWindowStart (flush e now b s) = minuteWindowStart s"
  "currentTaskId (flush e now b s) = currentTaskId s"
  "currentSessionId (flush e now b s) = currentSessionId s"
  "lastTaskOpenedAt (flush e now b s) = lastTaskOpenedAt s"
  "heartbeatTimer (flush e now b s) = heartbeatTimer s"
  "intervals (flush e now b s) = intervals s"
  by (simp_all add: flush_def Let_def split: option.splits)

lemma held_flush: "held (flush e now False s) = held s"
  by (simp add: flush_def held_def Let_def split: option.splits)

lemma capped_fields [simp]:
  "queue (snd (capped ty s)) = queue s"
  "inflight (snd (capped ty s)) = inflight s"
  "outbox (snd (capped ty s)) = outbox s"
  "minuteWindowStart (snd (capped ty s)) = minuteWindowStart s"
  "currentTaskId (snd (capped ty s)) = currentTaskId s"
  "currentSessionId (snd (capped ty s)) = currentSessionId s"
  "lastTaskOpenedAt (snd (capped ty s)) = lastTaskOpenedAt s"
  "heartbeatTimer (snd (capped ty s)) = heartbeatTimer s"
  "intervals (snd (capped ty s)) = intervals s"
  "flushTimer (snd (capped ty s)) = flushTimer s"
  "timeouts (snd (capped ty s)) = timeouts s"
  "nextTimer (snd (capped ty s)) = nextTimer s"
  by (simp_all add: capped_def Let_def)

lemma reset_fields [simp]:
  "queue (resetMinuteWindowIfNeeded now s) = queue s"
  "inflight (resetMinuteWindowIfNeeded now s) = inflight s"
  "outbox (resetMinuteWindowIfNeeded now s) = outbox s"
  "currentTaskId (resetMinuteWindowIfNeeded now s) = currentTaskId s"
  "currentSessionId (resetMinuteWindowIfNeeded now s) = currentSessionId s"
  "lastTaskOpenedAt (resetMinuteWindowIfNeeded now s) = lastTaskOpenedAt s"
  "heartbeatTimer (resetMinuteWindowIfNeeded now s) = heartbeatTimer s"
  "intervals (resetMinuteWindowIfNeeded now s) = intervals s"
  "flushTimer (resetMinuteWindowIfNeeded now s) = flushTimer s"
  "timeouts (resetMinuteWindowIfNeeded now s) = timeouts s"
  "nextTimer (resetMinuteWindowIfNeeded now s) = nextTimer s"
  by (simp_all add: resetMinuteWindowIfNeeded_def)

lemma event_cong:
  "currentTaskId s' = currentTaskId s \<Longrightarrow> currentSessionId s' = currentSessionId s
   \<Longrightarrow> event e now ty p s' = event e now ty p s"
  by (simp add: event_def)

text \<open>What a push does, with the flush it may end in left folded.\<close>

lemma pushEvent_unfold:
  "pushEvent e now ty p s =
     (let s2 = snd (capped ty (resetMinuteWindowIfNeeded now s)) in
      if \<not> admitted now ty s then s2
      else
        let s3 = s2\<lparr>queue := queue s2 @ [event e now ty p s]\<rparr>;
            s4 = (if flushTimer s3 = None then setFlushTimer FLUSH_INTERVAL_MS s3 else s3)
        in if length (queue s4) \<ge> MAX_BATCH_SIZE then flush e now False s4 else s4)"
  by (simp add: pushEvent_def admitted_def Let_def split_beta event_def)

lemma held_pushEvent:
  "held (pushEvent e now ty p s) =
     held s @ (if admitted now ty s then [event e now ty p s] else [])"
  by (simp add: pushEvent_unfold Let_def held_flush)
     (simp add: held_def setFlushTimer_def)

text \<open>
  An event that gets past the guards is appended to the queue; when that brings the queue
  to 30 events, the flush that follows at once moves the batch to a request.
\<close>

lemma queue_pushEvent:
  "admitted now ty s \<Longrightarrow> length (queue s) < 29
   \<Longrightarrow> queue (pushEvent e now ty p s) = queue s @ [event e now ty p s]"
  by (simp add: pushEvent_unfold Let_def setFlushTimer_def MAX_BATCH_SIZE_def)

lemma pushEvent_fields [simp]:
  "currentTaskId (pushEvent e now ty p s) = currentTaskId s"
  "currentSessionId (pushEvent e now ty p s) = currentSessionId s"
  "lastTaskOpenedAt (pushEvent e now ty p s) = lastTaskOpenedAt s"
  "heartbeatTimer (pushEvent e now ty p s) = heartbeatTimer s"
  "intervals (pushEvent e now ty p s) = intervals s"
  by (simp_all add: pushEvent_unfold Let_def setFlushTimer_def)

lemma pushEvent_window:
  "minuteWindowStart (pushEvent e now ty p s) = minuteWindowStart (resetMinuteWindowIfNeeded now s)"
  "counters (pushEvent e now ty p s) = counters (snd (capped ty (resetMinuteWindowIfNeeded now s)))"
  by (simp_all add: pushEvent_unfold Let_def setFlushTimer_def)

lemma admitted_capped:
  assumes "(t, N) \<in> set caps" and "now - minuteWindowStart s < 60000"
  shows "admitted now (JStr t) s \<longleftrightarrow> counter t (counters s) \<le> N"
proof -
  have r: "resetMinuteWindowIfNeeded now s = s"
    using assms(2) by (simp add: resetMinuteWindowIfNeeded_def)
  have "(t, N) = (''copy'', 40) \<or> (t, N) = (''paste'', 60) \<or> (t, N) = (''cut'', 40)
        \<or> (t, N) = (''tab_hidden'', 30) \<or> (t, N) = (''blur'', 60)"
    using assms(1) by (simp add: caps_def)
  then show ?thesis
    by (elim disjE) (simp_all add: admitted_def r capped_def counter_def Let_def not_less)
qed

lemma uncapped_admitted:
  "ty \<notin> JStr ` fst ` set caps \<Longrightarrow> admitted now ty s"
  by (simp add: caps_def admitted_def capped_def Let_def)

lemma held_pushEvent_admitted:
  "admitted now ty s \<Longrightarrow> held (pushEvent e now ty p s) = held s @ [event e now ty p s]"
  by (simp add: held_pushEvent)

lemma admitted_after_reset:
  "now - minuteWindowStart s \<ge> 60000 \<Longrightarrow> admitted now ty s"
  by (simp add: admitted_def resetMinuteWindowIfNeeded_def capped_def no_counts_def Let_def)

lemma counters_after_reset:
  assumes "now - minuteWindowStart s \<ge> 60000"
  shows "counter t (counters (pushEvent e now ty p s)) =
         (if ty = JStr t \<and> t \<in> fst ` set caps then 1 else 0)"
  using assms
  by (simp add: pushEvent_window resetMinuteWindowIfNeeded_def capped_def no_counts_def
      counter_def caps_def Let_def)

lemma elapsed_seconds_round:
  "(now < opened \<longrightarrow> elapsed_seconds now opened = 0)
   \<and> (opened \<le> now \<longrightarrow> 1000 * elapsed_seconds now opened - 500 \<le> now - opened
                        \<and> now - opened < 1000 * elapsed_seconds now opened + 500)"
  by (auto simp: elapsed_seconds_def max_def)

lemma uncapped_heartbeat: "admitted now (JStr ''heartbeat'') s"
  and uncapped_task_switch: "admitted now (JStr ''task_switch'') s"
  by (simp_all add: admitted_def capped_def Let_def)

lemma startHeartbeat_fields [simp]:
  "queue (startHeartbeat s) = queue s"
  "inflight (startHeartbeat s) = inflight s"
  "outbox (startHeartbeat s) = outbox s"
  "counters (startHeartbeat s) = counters s"
  "minuteWindowStart (startHeartbeat s) = minuteWindowStart s"
  "currentTaskId (startHeartbeat s) = currentTaskId s"
  "currentSessionId (startHeartbeat s) = currentSessionId s"
  "lastTaskOpenedAt (startHeartbeat s) = lastTaskOpenedAt s"
  "flushTimer (startHeartbeat s) = flushTimer s"
  "timeouts (startHeartbeat s) = timeouts s"
  by (simp_all add: startHeartbeat_def stopHeartbeat_def clearInterval_def Let_def
      split: option.splits)

lemma held_startHeartbeat [simp]: "held (startHeartbeat s) = held s"
  by (simp add: held_def)

lemma held_update [simp]:
  "held (s\<lparr>currentTaskId := a\<rparr>) = held s"
  "held (s\<lparr>currentSessionId := b\<rparr>) = held s"
  "held (s\<lparr>lastTaskOpenedAt := c\<rparr>) = held s"
  by (simp_all add: held_def)

lemma with_session_fields [simp]:
  "queue (with_session i s) = queue s"
  "inflight (with_session i s) = inflight s"
  "outbox (with_session i s) = outbox s"
  "currentTaskId (with_session i s) = currentTaskId s"
  "lastTaskOpenedAt (with_session i s) = lastTaskOpenedAt s"
  "held (with_session i s) = held s"
  by (simp_all add: with_session_def)

lemma setContext_switch:
  assumes "taskId \<noteq> PUndefined" and "taskId \<noteq> currentTaskId s"
    and "truthy_prim (currentTaskId s)"
  shows "setContext e now (Context sessionId taskId) s =
         Inr (startHeartbeat
               ((pushEvent e now (JStr ''task_switch'')
                   (JObj [(''from_task_id'', of_prim (currentTaskId s)),
                          (''to_task_id'', of_prim taskId),
                          (''seconds_spent'', JNum (elapsed_seconds now (lastTaskOpenedAt s)))])
                   (with_session sessionId s))
                \<lparr>currentTaskId := taskId, lastTaskOpenedAt := now\<rparr>))"
  using assms by (simp add: setContext_def with_session_def)

lemma setContext_quiet:
  assumes "taskId \<noteq> PUndefined" and "taskId = currentTaskId s \<or> \<not> truthy_prim (currentTaskId s)"
  shows "setContext e now (Context sessionId taskId) s =
         Inr (startHeartbeat
               ((with_session sessionId s)\<lparr>currentTaskId := taskId, lastTaskOpenedAt := now\<rparr>))"
  using assms by (auto simp add: setContext_def with_session_def)

subsection \<open>Pending timers\<close>

lemma timers_ok_init: "timers_ok (init t0)"
  by (simp add: timers_ok_def init_def)

lemma timers_ok_flush_catch: "timers_ok s \<Longrightarrow> timers_ok (flush_catch b s)"
  by (auto simp: timers_ok_def)


lemma timers_ok_update [simp]:
  "timers_ok (s\<lparr>queue := q\<rparr>) = timers_ok s"
  "timers_ok (s\<lparr>lastFlushAt := t\<rparr>) = timers_ok s"
  "timers_ok (s\<lparr>outbox := ob\<rparr>) = timers_ok s"
  "timers_ok (s\<lparr>inflight := fl\<rparr>) = timers_ok s"
  "timers_ok (s\<lparr>currentTaskId := i\<rparr>) = timers_ok s"
  "timers_ok (s\<lparr>currentSessionId := i\<rparr>) = timers_ok s"
  "timers_ok (s\<lparr>lastTaskOpenedAt := t\<rparr>) = timers_ok s"
  by (simp_all add: timers_ok_def)

lemma timers_ok_flush: "timers_ok s \<Longrightarrow> timers_ok (flush e now b s)"
  by (simp add: flush_def Let_def timers_ok_flush_catch split: option.splits)

lemma timers_ok_capped: "timers_ok (snd (capped ty s)) = timers_ok s"
  and timers_ok_reset: "timers_ok (resetMinuteWindowIfNeeded now s) = timers_ok s"
  and timers_ok_startHeartbeat: "timers_ok (startHeartbeat s) = timers_ok s"
  and timers_ok_with_session: "timers_ok (with_session i s) = timers_ok s"
  by (simp_all add: timers_ok_def with_session_def)

lemma timers_ok_stopHeartbeat: "timers_ok (stopHeartbeat s) = timers_ok s"
  by (simp add: timers_ok_def stopHeartbeat_def clearInterval_def split: option.splits)

lemma timers_ok_setFlushTimer:
  "timers_ok s \<Longrightarrow> flushTimer s = None \<Longrightarrow> timers_ok (setFlushTimer d s)"
  by (auto simp: timers_ok_def setFlushTimer_def)

lemma timers_ok_pushEvent: "timers_ok s \<Longrightarrow> timers_ok (pushEvent e now ty p s)"
  by (simp add: pushEvent_unfold Let_def timers_ok_flush timers_ok_setFlushTimer
      timers_ok_capped timers_ok_reset)

lemma timers_ok_clearTimeout: "timers_ok s \<Longrightarrow> timers_ok (clearTimeout t s)"
  by (simp add: timers_ok_def clearTimeout_def)

lemma timers_ok_setContext:
  "timers_ok s \<Longrightarrow> setContext e now arg s = Inr s' \<Longrightarrow> timers_ok s'"
  by (cases arg)
     (auto simp: setContext_def Let_def timers_ok_startHeartbeat timers_ok_pushEvent
       split: if_splits)

lemma timers_ok_step: "timers_ok s \<Longrightarrow> timers_ok (step e now t s)"
proof (cases t)
  case (Call c)
  assume "timers_ok s"
  then show ?thesis
    using Call
    by (cases c)
       (auto simp: timers_ok_pushEvent timers_ok_flush split: sum.splits
         dest: timers_ok_setContext)
next
  case (TimeoutFires x)
  assume "timers_ok s"
  then show ?thesis
    using TimeoutFires by (simp add: timeout_fires_def timers_ok_flush timers_ok_clearTimeout)
next
  case HeartbeatFires
  assume "timers_ok s"
  then show ?thesis
    using HeartbeatFires by (simp add: heartbeat_def timers_ok_pushEvent)
next
  case (FetchResolved i)
  assume "timers_ok s"
  then show ?thesis using FetchResolved by (simp add: fetch_resolved_def)
next
  case (FetchRejected i)
  assume "timers_ok s"
  then show ?thesis
    using FetchRejected by (simp add: fetch_rejected_def timers_ok_flush_catch)
next
  case BeforeUnload
  assume "timers_ok s"
  then show ?thesis
    using BeforeUnload
    by (simp add: timers_ok_stopHeartbeat timers_ok_flush timers_ok_pushEvent)
qed

lemma timers_ok_run: "timers_ok s \<Longrightarrow> timers_ok (run e ts s)"
  by (induction ts arbitrary: s) (auto simp: timers_ok_step)

subsection \<open>Events held\<close>

lemma of_prim_undefined [simp]: "(of_prim x = JUndefined) = (x = PUndefined)"
  by (cases x) simp_all

lemma truthy_defined: "truthy p \<Longrightarrow> p \<noteq> JUndefined"
  by (cases p) simp_all

lemma keys_event [simp]: "keys (event e now ty p s) = event_keys"
  by (simp add: event_def event_keys_def)

lemma keys_trimmed [simp]: "keys (trimmed ev) = trimmed_keys"
  and payload_trimmed [simp]: "getprop (trimmed ev) ''payload'' = marker"
  by (simp_all add: trimmed_def trimmed_keys_def marker_def)

lemma trimmed_keeps:
  "getprop (trimmed ev) ''ts'' = getprop ev ''ts''"
  "getprop (trimmed ev) ''type'' = getprop ev ''type''"
  "getprop (trimmed ev) ''task_id'' = getprop ev ''task_id''"
  "getprop (trimmed ev) ''session_id'' = getprop ev ''session_id''"
  "getprop (trimmed ev) ''page'' = getprop ev ''page''"
  by (simp_all add: trimmed_def)

lemma wf_event_event:
  assumes "currentTaskId s \<noteq> PUndefined" and "currentSessionId s \<noteq> PUndefined"
  shows "wf_event (event e now ty p s)"
  using assms truthy_defined [of p]
  by (auto simp: wf_event_def event_keys_def event_keys_untyped_def event_def)

lemma wf_trimmed_trimmed: "wf_event ev \<Longrightarrow> wf_trimmed (trimmed ev)"
  by (simp add: wf_event_def wf_trimmed_def event_keys_untyped_def trimmed_keys_untyped_def
      trimmed_keeps marker_def)

lemma sent_keys_filter:
  "distinct (map fst ps) \<Longrightarrow>
   sent_keys (JObj ps) = filter (\<lambda>k. getprop (JObj ps) k \<noteq> JUndefined) (map fst ps)"
proof (induction ps)
  case Nil
  show ?case by simp
next
  case (Cons a ps)
  obtain k v where a: "a = (k, v)" by (cases a)
  have d: "distinct (map fst ps)" and n: "k \<notin> fst ` set ps"
    using Cons.prems a by simp_all
  have "filter (\<lambda>k'. getprop (JObj ((k, v) # ps)) k' \<noteq> JUndefined) (map fst ps)
        = filter (\<lambda>k'. getprop (JObj ps) k' \<noteq> JUndefined) (map fst ps)"
    using n by (intro filter_cong) auto
  then show ?case using Cons.IH [OF d] a by simp
qed

lemma sent_keys_object:
  assumes "distinct (keys ev)" and "keys ev \<noteq> []"
  shows "sent_keys ev = filter (\<lambda>k. getprop ev k \<noteq> JUndefined) (keys ev)"
  using assms sent_keys_filter by (cases ev) simp_all

lemma sent_keys_event:
  assumes "wf_event ev"
  shows "sent_keys ev =
         (if getprop ev ''type'' = JUndefined then event_keys_untyped else event_keys)"
proof -
  have "sent_keys ev = filter (\<lambda>k. getprop ev k \<noteq> JUndefined) event_keys"
    using assms sent_keys_object [of ev] by (simp add: wf_event_def event_keys_def)
  then show ?thesis
    using assms by (simp add: wf_event_def event_keys_def event_keys_untyped_def)
qed

lemma sent_keys_trimmed:
  assumes "wf_trimmed ev"
  shows "sent_keys ev =
         (if getprop ev ''type'' = JUndefined then trimmed_keys_untyped else trimmed_keys)"
proof -
  have "sent_keys ev = filter (\<lambda>k. getprop ev k \<noteq> JUndefined) trimmed_keys"
    using assms sent_keys_object [of ev] by (simp add: wf_trimmed_def trimmed_keys_def)
  then show ?thesis
    using assms
    by (simp add: wf_trimmed_def trimmed_keys_def trimmed_keys_untyped_def marker_def)
qed

lemma events_of_payload [simp]:
  "events_of (events_payload evs) = evs" "events_of (JObj [(''events'', JArr evs)]) = evs"
  by (simp_all add: events_of_def events_payload_def)

lemma events_ok_init: "events_ok (init t0)"
  by (simp add: events_ok_def held_def init_def)

lemma events_ok_flush: "events_ok s \<Longrightarrow> events_ok (flush e now b s)"
  by (auto simp: flush_def Let_def events_ok_def held_def split: option.splits
      dest: in_set_takeD in_set_dropD)

lemma events_ok_pushEvent: "events_ok s \<Longrightarrow> events_ok (pushEvent e now ty p s)"
  unfolding events_ok_def held_pushEvent by (auto simp: wf_event_event)

lemma events_ok_fetch_resolved: "events_ok s \<Longrightarrow> events_ok (fetch_resolved i s)"
  by (auto simp: events_ok_def held_def fetch_resolved_def dest: in_set_takeD in_set_dropD)

lemma concat_nth_split:
  assumes "i < length xs"
  shows "concat xs = concat (take i xs) @ xs ! i @ concat (drop (Suc i) xs)"
proof -
  have "concat xs = concat (take i xs @ xs ! i # drop (Suc i) xs)"
    using id_take_nth_drop [OF assms] by simp
  then show ?thesis by simp
qed

lemma mset_held_fetch_rejected: "mset (held (fetch_rejected i s)) = mset (held s)"
proof (cases "i < length (inflight s)")
  case True
  then show ?thesis
    by (simp add: held_def fetch_rejected_def concat_nth_split [OF True])
next
  case False
  then show ?thesis by (simp add: fetch_rejected_def)
qed

lemma ids_fetch_rejected [simp]:
  "currentTaskId (fetch_rejected i s) = currentTaskId s"
  "currentSessionId (fetch_rejected i s) = currentSessionId s"
  by (simp_all add: fetch_rejected_def)

lemma events_ok_fetch_rejected: "events_ok s \<Longrightarrow> events_ok (fetch_rejected i s)"
  unfolding events_ok_def using mset_held_fetch_rejected [of i s]
  by (metis ids_fetch_rejected set_mset_mset)

lemma events_ok_update [simp]:
  "events_ok (s\<lparr>lastTaskOpenedAt := c\<rparr>) = events_ok s"
  "events_ok (startHeartbeat s) = events_ok s"
  by (simp_all add: events_ok_def)

lemma events_ok_task:
  "events_ok s \<Longrightarrow> a \<noteq> PUndefined \<Longrightarrow> events_ok (s\<lparr>currentTaskId := a\<rparr>)"
  and events_ok_with_session: "events_ok s \<Longrightarrow> events_ok (with_session i s)"
  by (auto simp: events_ok_def with_session_def)

lemma events_ok_stopHeartbeat [simp]: "events_ok (stopHeartbeat s) = events_ok s"
  by (simp add: events_ok_def held_def stopHeartbeat_def clearInterval_def split: option.splits)

lemma events_ok_clearTimeout [simp]: "events_ok (clearTimeout t s) = events_ok s"
  by (simp add: events_ok_def held_def clearTimeout_def)

lemma setContext_result:
  "setContext e now (Context sessionId taskId) s =
     Inr (startHeartbeat
           (if taskId = PUndefined then with_session sessionId s
            else (if truthy_prim (currentTaskId s) \<and> currentTaskId s \<noteq> taskId
                  then pushEvent e now (JStr ''task_switch'')
                         (JObj [(''from_task_id'', of_prim (currentTaskId s)),
                                (''to_task_id'', of_prim taskId),
                                (''seconds_spent'',
                                   JNum (elapsed_seconds now (lastTaskOpenedAt s)))])
                         (with_session sessionId s)
                  else with_session sessionId s)
                 \<lparr>currentTaskId := taskId, lastTaskOpenedAt := now\<rparr>))"
  by (simp add: setContext_def with_session_def Let_def)

lemma setContext_cases:
  assumes "setContext e now arg s = Inr s'"
  obtains sessionId taskId where "arg = Context sessionId taskId"
    and "s' = startHeartbeat (with_session sessionId s)
         \<or> taskId \<noteq> PUndefined
            \<and> s' = startHeartbeat ((with_session sessionId s)
                      \<lparr>currentTaskId := taskId, lastTaskOpenedAt := now\<rparr>)
         \<or> taskId \<noteq> PUndefined
            \<and> (\<exists>p. s' = startHeartbeat
                      ((pushEvent e now (JStr ''task_switch'') p (with_session sessionId s))
                       \<lparr>currentTaskId := taskId, lastTaskOpenedAt := now\<rparr>))"
  using assms
  by (cases arg) (auto simp: setContext_def with_session_def Let_def split: if_splits)

lemma events_ok_setContext:
  "events_ok s \<Longrightarrow> setContext e now arg s = Inr s' \<Longrightarrow> events_ok s'"
  by (erule setContext_cases)
     (auto simp: events_ok_pushEvent events_ok_task events_ok_with_session)

lemma events_ok_step: "events_ok s \<Longrightarrow> events_ok (step e now t s)"
proof (cases t)
  case (Call c)
  assume "events_ok s"
  then show ?thesis
    using Call
    by (cases c)
       (auto simp: events_ok_pushEvent events_ok_flush split: sum.splits
         dest: events_ok_setContext)
next
  case (TimeoutFires x)
  assume "events_ok s"
  then show ?thesis
    using TimeoutFires by (simp add: timeout_fires_def events_ok_flush)
next
  case HeartbeatFires
  assume "events_ok s"
  then show ?thesis
    using HeartbeatFires by (simp add: heartbeat_def events_ok_pushEvent)
next
  case (FetchResolved i)
  assume "events_ok s"
  then show ?thesis using FetchResolved by (simp add: events_ok_fetch_resolved)
next
  case (FetchRejected i)
  assume "events_ok s"
  then show ?thesis using FetchRejected by (simp add: events_ok_fetch_rejected)
next
  case BeforeUnload
  assume "events_ok s"
  then show ?thesis
    using BeforeUnload by (simp add: events_ok_flush events_ok_pushEvent)
qed

subsection \<open>Payloads delivered\<close>

lemma wf_payload_of:
  assumes "batch \<noteq> []" and "length batch \<le> 30" and "\<forall>ev \<in> set batch. wf_event ev"
    and "stringify e (payload_of e batch) \<noteq> None"
  shows "wf_payload e (payload_of e batch)"
proof (cases "approxByteSize e (events_payload batch) > MAX_PAYLOAD_BYTES")
  case True
  then have p: "payload_of e batch = JObj [(''events'', JArr (map trimmed batch))]"
    by (simp add: payload_of_def events_payload_def)
  show ?thesis
    using assms by (simp add: p wf_payload_def wf_trimmed_trimmed)
next
  case False
  then have p: "payload_of e batch = JObj [(''events'', JArr batch)]"
    by (simp add: payload_of_def events_payload_def)
  have "case stringify e (JObj [(''events'', JArr batch)]) of
          Some body \<Rightarrow> length body \<le> 30000 | None \<Rightarrow> False"
    using False assms(4)
    by (simp add: p approxByteSize_def events_payload_def MAX_PAYLOAD_BYTES_def
        split: option.splits)
  then show ?thesis
    using assms by (simp add: p wf_payload_def)
qed

lemma outbox_flush:
  "outbox (flush e now b s) = outbox s
   \<or> outbox (flush e now b s) = outbox s @ [payload_of e (take 30 (queue s))]
     \<and> queue s \<noteq> [] \<and> stringify e (payload_of e (take 30 (queue s))) \<noteq> None"
  by (auto simp: flush_def Let_def MAX_BATCH_SIZE_def split: option.splits)

lemma outbox_ok_flush:
  assumes "events_ok s" and "outbox_ok e s"
  shows "outbox_ok e (flush e now b s)"
proof -
  have "wf_payload e (payload_of e (take 30 (queue s)))"
    if "queue s \<noteq> []" and "stringify e (payload_of e (take 30 (queue s))) \<noteq> None"
  proof (rule wf_payload_of)
    show "take 30 (queue s) \<noteq> []" using that by simp
    show "length (take 30 (queue s)) \<le> 30" by simp
    show "\<forall>ev \<in> set (take 30 (queue s)). wf_event ev"
      using assms(1) by (auto simp: events_ok_def held_def dest: in_set_takeD)
    show "stringify e (payload_of e (take 30 (queue s))) \<noteq> None" using that by simp
  qed
  then show ?thesis
    using assms(2) outbox_flush [of e now b s] by (auto simp: outbox_ok_def)
qed

lemma outbox_ok_init: "outbox_ok e (init t0)"
  by (simp add: outbox_ok_def init_def)

lemma outbox_ok_update [simp]:
  "outbox_ok e (s\<lparr>queue := q\<rparr>) = outbox_ok e s"
  "outbox_ok e (s\<lparr>inflight := fl\<rparr>) = outbox_ok e s"
  "outbox_ok e (s\<lparr>currentTaskId := a\<rparr>) = outbox_ok e s"
  "outbox_ok e (s\<lparr>lastTaskOpenedAt := c\<rparr>) = outbox_ok e s"
  "outbox_ok e (startHeartbeat s) = outbox_ok e s"
  "outbox_ok e (with_session i s) = outbox_ok e s"
  "outbox_ok e (flush_catch batch s) = outbox_ok e s"
  "outbox_ok e (snd (capped ty s)) = outbox_ok e s"
  "outbox_ok e (resetMinuteWindowIfNeeded now s) = outbox_ok e s"
  by (simp_all add: outbox_ok_def)

lemma outbox_ok_stopHeartbeat [simp]: "outbox_ok e (stopHeartbeat s) = outbox_ok e s"
  by (simp add: outbox_ok_def stopHeartbeat_def clearInterval_def split: option.splits)

lemma outbox_ok_clearTimeout [simp]: "outbox_ok e (clearTimeout t s) = outbox_ok e s"
  by (simp add: outbox_ok_def clearTimeout_def)

lemma appended_fields [simp]:
  "queue (appended e now ty p s) = queue s @ [event e now ty p s]"
  "outbox (appended e now ty p s) = outbox s"
  "inflight (appended e now ty p s) = inflight s"
  "currentTaskId (appended e now ty p s) = currentTaskId s"
  "currentSessionId (appended e now ty p s) = currentSessionId s"
  by (simp_all add: appended_def Let_def setFlushTimer_def event_def)

lemma pushEvent_cases:
  "pushEvent e now ty p s =
     (if \<not> admitted now ty s then snd (capped ty (resetMinuteWindowIfNeeded now s))
      else if MAX_BATCH_SIZE \<le> length (queue (appended e now ty p s))
        then flush e now False (appended e now ty p s)
      else appended e now ty p s)"
  by (simp add: pushEvent_def appended_def admitted_def Let_def split_beta)

lemma outbox_ok_pushEvent:
  assumes "events_ok s" and "outbox_ok e s"
  shows "outbox_ok e (pushEvent e now ty p s)"
proof -
  have ev: "events_ok (appended e now ty p s)"
    using assms(1) by (auto simp: events_ok_def held_def wf_event_event)
  have ob: "outbox_ok e (appended e now ty p s)" using assms(2) by (simp add: outbox_ok_def)
  show ?thesis
    using ev ob assms(2) by (simp add: pushEvent_cases outbox_ok_flush)
qed

lemma outbox_ok_setContext:
  "events_ok s \<Longrightarrow> outbox_ok e s \<Longrightarrow> setContext e now arg s = Inr s' \<Longrightarrow> outbox_ok e s'"
  by (erule setContext_cases) (auto simp: outbox_ok_pushEvent events_ok_with_session)

lemma outbox_ok_step:
  assumes "events_ok s" and "outbox_ok e s"
  shows "outbox_ok e (step e now t s)"
proof (cases t)
  case (Call c)
  then show ?thesis
    using assms
    by (cases c)
       (auto simp: outbox_ok_pushEvent outbox_ok_flush split: sum.splits
         dest: outbox_ok_setContext)
next
  case (TimeoutFires x)
  then show ?thesis
    using assms by (simp add: timeout_fires_def outbox_ok_flush)
next
  case HeartbeatFires
  then show ?thesis
    using assms by (simp add: heartbeat_def outbox_ok_pushEvent)
next
  case (FetchResolved i)
  then show ?thesis using assms by (simp add: fetch_resolved_def)
next
  case (FetchRejected i)
  then show ?thesis using assms by (simp add: fetch_rejected_def)
next
  case BeforeUnload
  then show ?thesis
    using assms by (simp add: outbox_ok_flush outbox_ok_pushEvent events_ok_pushEvent)
qed

lemma inv_init: "inv e (init t0)"
  by (simp add: inv_def timers_ok_init events_ok_init outbox_ok_init)

lemma inv_step: "inv e s \<Longrightarrow> inv e (step e now t s)"
  by (simp add: inv_def timers_ok_step events_ok_step outbox_ok_step)

lemma inv_run: "inv e s \<Longrightarrow> inv e (run e ts s)"
  by (induction ts arbitrary: s) (auto simp: inv_step)

lemma inv_reachable: "inv e (run e ts (init t0))"
  by (simp add: inv_run inv_init)

subsection \<open>Counting inside a window\<close>

lemma caps_cases:
  assumes "(t, N) \<in> set caps"
  obtains "t = ''copy''" "N = 40" | "t = ''paste''" "N = 60" | "t = ''cut''" "N = 40"
    | "t = ''tab_hidden''" "N = 30" | "t = ''blur''" "N = 60"
  using assms by (auto simp: caps_def)

lemma counter_capped:
  assumes "(t, N) \<in> set caps"
  shows "counter t (counters (snd (capped ty s))) =
         counter t (counters s) + (if ty = JStr t then 1 else 0)"
  using assms by (rule caps_cases) (simp_all add: capped_def counter_def Let_def)

lemma in_window [simp]:
  "now - minuteWindowStart s < 60000 \<Longrightarrow> resetMinuteWindowIfNeeded now s = s"
  by (simp add: resetMinuteWindowIfNeeded_def)

lemma counter_pushEvent_window:
  assumes "(t, N) \<in> set caps" and "now - minuteWindowStart s < 60000"
  shows "counter t (counters (pushEvent e now ty p s)) =
         counter t (counters s) + (if ty = JStr t then 1 else 0)"
    and "minuteWindowStart (pushEvent e now ty p s) = minuteWindowStart s"
  using assms by (simp_all add: pushEvent_window counter_capped)

lemma window_fields [simp]:
  "counters (startHeartbeat s) = counters s"
  "counters (stopHeartbeat s) = counters s"
  "minuteWindowStart (stopHeartbeat s) = minuteWindowStart s"
  "counters (clearTimeout t s) = counters s"
  "minuteWindowStart (clearTimeout t s) = minuteWindowStart s"
  "counters (fetch_resolved i s) = counters s"
  "minuteWindowStart (fetch_resolved i s) = minuteWindowStart s"
  "counters (fetch_rejected i s) = counters s"
  "minuteWindowStart (fetch_rejected i s) = minuteWindowStart s"
  "counters (with_session sid s) = counters s"
  "minuteWindowStart (with_session sid s) = minuteWindowStart s"
  by (simp_all add: stopHeartbeat_def clearInterval_def clearTimeout_def fetch_resolved_def
      fetch_rejected_def with_session_def split: option.splits)

lemma window_setContext:
  assumes "(t, N) \<in> set caps" and "now - minuteWindowStart s < 60000"
    and "setContext e now arg s = Inr s'"
  shows "counter t (counters s') = counter t (counters s)
         \<and> minuteWindowStart s' = minuteWindowStart s"
proof (cases arg)
  case Nullish
  then show ?thesis using assms(3) by (simp add: setContext_def)
next
  case (Context sessionId taskId)
  have n: "JStr ''task_switch'' \<noteq> JStr t"
    using assms(1) by (rule caps_cases) simp_all
  have w: "now - minuteWindowStart (with_session sessionId s) < 60000"
    using assms(2) by simp
  show ?thesis
    using assms(3) Context n
      counter_pushEvent_window [OF assms(1) w, of e "JStr ''task_switch''"]
    by (auto simp: setContext_result)
qed

lemma window_step:
  assumes "(t, N) \<in> set caps" and "now - minuteWindowStart s < 60000"
  shows "counter t (counters (step e now tn s)) =
         counter t (counters s) + (if is_log t tn then 1 else 0)
         \<and> minuteWindowStart (step e now tn s) = minuteWindowStart s"
proof (cases tn)
  case (Call c)
  show ?thesis
  proof (cases c)
    case (SetContext arg)
    show ?thesis
      using window_setContext [OF assms, of e arg] Call SetContext
      by (cases "setContext e now arg s") simp_all
  next
    case (Log ty p)
    then show ?thesis
      using Call counter_pushEvent_window [OF assms, of e ty p] by simp
  next
    case Flush
    then show ?thesis using Call by simp
  qed
next
  case (TimeoutFires x)
  then show ?thesis by (simp add: timeout_fires_def)
next
  case HeartbeatFires
  have "JStr ''heartbeat'' \<noteq> JStr t"
    using assms(1) by (rule caps_cases) simp_all
  then show ?thesis
    using HeartbeatFires counter_pushEvent_window [OF assms, of e "JStr ''heartbeat''"]
    by (simp add: heartbeat_def)
next
  case (FetchResolved i)
  then show ?thesis by simp
next
  case (FetchRejected i)
  then show ?thesis by simp
next
  case BeforeUnload
  have "JStr ''exit'' \<noteq> JStr t"
    using assms(1) by (rule caps_cases) simp_all
  then show ?thesis
    using BeforeUnload counter_pushEvent_window [OF assms, of e "JStr ''exit''"]
    by simp
qed

lemma window_run:
  assumes "(t, N) \<in> set caps"
    and "\<forall>x \<in> set ts. fst x - minuteWindowStart s < 60000"
  shows "counter t (counters (run e ts s)) = counter t (counters s) + submissions t ts
         \<and> minuteWindowStart (run e ts s) = minuteWindowStart s"
  using assms(2)
proof (induction ts arbitrary: s)
  case Nil
  show ?case by (simp add: submissions_def)
next
  case (Cons x ts)
  obtain now tn where x: "x = (now, tn)" by (cases x)
  have w: "now - minuteWindowStart s < 60000" using Cons.prems x by simp
  note st = window_step [OF assms(1) w, of e tn]
  have "\<forall>y \<in> set ts. fst y - minuteWindowStart (step e now tn s) < 60000"
    using Cons.prems st by simp
  from Cons.IH [OF this] st show ?case
    by (simp add: x submissions_def)
qed

subsection \<open>Turns that send and settle nothing\<close>







lemma stopHeartbeat_fields [simp]:
  "queue (stopHeartbeat s) = queue s"
  "inflight (stopHeartbeat s) = inflight s"
  "outbox (stopHeartbeat s) = outbox s"
  by (simp_all add: stopHeartbeat_def clearInterval_def split: option.splits)



subsection \<open>Flush and its failure\<close>

lemma flush_sent:
  assumes "queue s \<noteq> []" and "stringify e (payload_of e (take 30 (queue s))) \<noteq> None"
  shows "queue (flush e now b s) = drop 30 (queue s)"
    and "outbox (flush e now b s) = outbox s @ [payload_of e (take 30 (queue s))]"
    and "inflight (flush e now b s) =
           (if b \<and> sendBeacon e then inflight s else inflight s @ [take 30 (queue s)])"
    and "timeouts (flush e now b s) = timeouts s"
    and "flushTimer (flush e now b s) = flushTimer s"
  using assms by (auto simp: flush_def Let_def MAX_BATCH_SIZE_def)

lemma flush_thrown:
  assumes "queue s \<noteq> []" and "stringify e (payload_of e (take 30 (queue s))) = None"
  shows "flush e now b s =
         flush_catch (take 30 (queue s)) (s\<lparr>queue := drop 30 (queue s), lastFlushAt := now\<rparr>)"
  using assms by (simp add: flush_def Let_def MAX_BATCH_SIZE_def)


lemma capped_only_counters: "snd (capped ty s) = s\<lparr>counters := counters (snd (capped ty s))\<rparr>"
  by (simp add: capped_def Let_def)

lemma dropped_in_window:
  assumes "\<not> admitted now ty s"
  shows "resetMinuteWindowIfNeeded now s = s"
proof (rule ccontr)
  assume "resetMinuteWindowIfNeeded now s \<noteq> s"
  then have "now - minuteWindowStart s \<ge> 60000"
    by (simp add: resetMinuteWindowIfNeeded_def split: if_splits)
  then show False using assms admitted_after_reset by blast
qed

lemma pushEvent_dropped:
  assumes "\<not> admitted now ty s"
  shows "pushEvent e now ty p s = s\<lparr>counters := counters (snd (capped ty s))\<rparr>"
  using assms capped_only_counters [of ty s]
  by (simp add: pushEvent_unfold dropped_in_window [OF assms])

subsection \<open>Evaluation on the concrete platform\<close>

text \<open>The serializer writes the properties that are not \<^verbatim>\<open>undefined\<close>, and no others.\<close>

lemma json_props_keys:
  "json_props ps = Some kxs \<Longrightarrow> map fst kxs = sent_keys (JObj ps)"
proof (induction ps arbitrary: kxs)
  case Nil
  then show ?case by simp
next
  case (Cons a ps)
  obtain k v where a: "a = (k, v)" by (cases a)
  show ?case
  proof (cases "v = JUndefined")
    case True
    then show ?thesis using Cons a by simp
  next
    case False
    then obtain x kxs' where "json v = Some x" "json_props ps = Some kxs'" "kxs = (k, x) # kxs'"
      using Cons.prems a by (cases v) (auto split: option.splits)
    then show ?thesis using Cons.IH [of kxs'] a False by simp
  qed
qed

lemma dec_digit: "n < 10 \<Longrightarrow> dec n = [digit n]"
  by (subst dec.simps) simp

lemma dec_more: "10 \<le> n \<Longrightarrow> dec n = dec (n div 10) @ [digit (n mod 10)]"
  by (subst dec.simps) simp

lemma zeros: "replicate (numeral k) CHR ''0'' = CHR ''0'' # replicate (pred_numeral k) CHR ''0''"
  by (simp add: numeral_eq_Suc)

lemmas eval_platform =
  browser_def iso_def iso_time_def iso_year_def civil_def civil_of_era_def civil_of_year_def
  civil_date_def month_from_march_def day_of_year_def year_of_era_def pad_def zeros dec_digit
  dec_more digit_def json_number_def signed_def json_string_def json_char_def member_def
  js_order_def array_index_def is_digit_def

lemmas eval_tracker =
  init_def no_counts_def pushEvent_def resetMinuteWindowIfNeeded_def capped_def event_def
  setFlushTimer_def clearTimeout_def flush_def flush_catch_def payload_of_def
  events_payload_def approxByteSize_def trimmed_def timeout_fires_def fetch_rejected_def
  fetch_resolved_def FLUSH_INTERVAL_MS_def MAX_BATCH_SIZE_def MAX_PAYLOAD_BYTES_def
  HEARTBEAT_SEC_def setContext_def startHeartbeat_def stopHeartbeat_def clearInterval_def
  heartbeat_def elapsed_seconds_def Let_def

section \<open>The claims\<close>

subsection \<open>C1: a failed delivery puts the batch back\<close>




subsection \<open>C2: the caps\<close>

text \<open>
  Claim C2. Take a capped type \<open>t\<close> with threshold \<open>N\<close>, any state, and any series of
  turns that all fall inside the current 60-second window (calls of the host page with
  events of any type, timers, requests settling, in any order). The counter of \<open>t\<close> then
  stands at its value before plus the number of submissions of type \<open>t\<close> in the series.
  A further submission of type \<open>t\<close> inside the window is enqueued when that count is at
  most \<open>N\<close> and dropped, with nothing but the counter changed, when it is larger; either
  way it is counted. A window opens with the count at 0, at load, or with the push that
  resets the counters, which is counted when it has type \<open>t\<close>. So submissions \<open>1\<close> to
  \<open>N + 1\<close> of a window are enqueued and submission \<open>N + 2\<close> is dropped. A push of any
  type outside the five capped ones is enqueued in every state.
\<close>

theorem rate_limit_window:
  assumes "(t, N) \<in> set caps"
    and "\<forall>x \<in> set ts. fst x - minuteWindowStart s < 60000"
    and "now - minuteWindowStart s < 60000"
  shows "let s' = run e ts s; k = counter t (counters s) + submissions t ts in
           counter t (counters s') = k
           \<and> (k \<le> N \<longrightarrow>
                 held (pushEvent e now (JStr t) p s') = held s' @ [event e now (JStr t) p s'])
           \<and> (N < k \<longrightarrow>
                 pushEvent e now (JStr t) p s' =
                   s'\<lparr>counters := counters (pushEvent e now (JStr t) p s')\<rparr>)
           \<and> counter t (counters (pushEvent e now (JStr t) p s')) = k + 1
           \<and> counter t (counters (init t0)) = 0
           \<and> (\<forall>w ty0 p0 s0. 60000 \<le> w - minuteWindowStart s0 \<longrightarrow>
                 counter t (counters (pushEvent e w ty0 p0 s0)) = (if ty0 = JStr t then 1 else 0)
                 \<and> minuteWindowStart (pushEvent e w ty0 p0 s0) = w)
           \<and> (\<forall>ty now' p' s''. ty \<notin> JStr ` fst ` set caps \<longrightarrow>
                 held (pushEvent e now' ty p' s'') = held s'' @ [event e now' ty p' s''])"
proof -
  let ?s' = "run e ts s"
  let ?k = "counter t (counters s) + submissions t ts"
  have r: "counter t (counters ?s') = ?k" "minuteWindowStart ?s' = minuteWindowStart s"
    using window_run [OF assms(1) assms(2), of e] by simp_all
  have w: "now - minuteWindowStart ?s' < 60000" using assms(3) r(2) by simp
  have adm: "admitted now (JStr t) ?s' \<longleftrightarrow> ?k \<le> N"
    using admitted_capped [OF assms(1) w] r(1) by simp
  have a: "held (pushEvent e now (JStr t) p ?s') = held ?s' @ [event e now (JStr t) p ?s']"
    if "?k \<le> N"
    using that adm by (simp add: held_pushEvent)
  have b: "pushEvent e now (JStr t) p ?s' =
           ?s'\<lparr>counters := counters (pushEvent e now (JStr t) p ?s')\<rparr>"
    if "N < ?k"
  proof -
    have n: "\<not> admitted now (JStr t) ?s'" using that adm by simp
    show ?thesis
      using pushEvent_dropped [OF n, of e p] by simp
  qed
  have c: "counter t (counters (pushEvent e now (JStr t) p ?s')) = ?k + 1"
    using counter_pushEvent_window(1) [OF assms(1) w, of e "JStr t" p] r(1) by simp
  have d: "counter t (counters (init t0)) = 0"
    by (simp add: init_def no_counts_def counter_def)
  have f: "counter t (counters (pushEvent e w ty0 p0 s0)) = (if ty0 = JStr t then 1 else 0)
           \<and> minuteWindowStart (pushEvent e w ty0 p0 s0) = w"
    if "60000 \<le> w - minuteWindowStart s0" for w ty0 p0 s0
  proof -
    have "t \<in> fst ` set caps" using assms(1) by force
    then show ?thesis
      using counters_after_reset [OF that, of t e ty0 p0] that
      by (simp add: pushEvent_window resetMinuteWindowIfNeeded_def)
  qed
  have g: "held (pushEvent e now' ty p' s'') = held s'' @ [event e now' ty p' s'']"
    if "ty \<notin> JStr ` fst ` set caps" for ty now' p' s''
    using uncapped_admitted [OF that] by (simp add: held_pushEvent)
  show ?thesis
    unfolding Let_def using r(1) a b c d f g by blast
qed

theorem rate_limit_window_witness:
  "counter ''copy'' (counters (run browser
       (replicate 20 (1000, Call (Log (JStr ''copy'') JUndefined))
        @ [(1000, Call (Log (JStr ''focus'') JUndefined))]
        @ replicate 21 (1000, Call (Log (JStr ''copy'') JUndefined))) (init 0))) = 41
   \<and> held (pushEvent browser 2000 (JStr ''copy'') JUndefined (run browser
       (replicate 20 (1000, Call (Log (JStr ''copy'') JUndefined))
        @ [(1000, Call (Log (JStr ''focus'') JUndefined))]
        @ replicate 21 (1000, Call (Log (JStr ''copy'') JUndefined))) (init 0)))
     = held (run browser
       (replicate 20 (1000, Call (Log (JStr ''copy'') JUndefined))
        @ [(1000, Call (Log (JStr ''focus'') JUndefined))]
        @ replicate 21 (1000, Call (Log (JStr ''copy'') JUndefined))) (init 0))
   \<and> held (pushEvent browser 2000 (JStr ''copy'') JUndefined (run browser
       (replicate 20 (1000, Call (Log (JStr ''copy'') JUndefined))
        @ [(1000, Call (Log (JStr ''focus'') JUndefined))]
        @ replicate 20 (1000, Call (Log (JStr ''copy'') JUndefined))) (init 0)))
     = held (run browser
       (replicate 20 (1000, Call (Log (JStr ''copy'') JUndefined))
        @ [(1000, Call (Log (JStr ''focus'') JUndefined))]
        @ replicate 20 (1000, Call (Log (JStr ''copy'') JUndefined))) (init 0))
       @ [event browser 2000 (JStr ''copy'') JUndefined (run browser
            (replicate 20 (1000, Call (Log (JStr ''copy'') JUndefined))
             @ [(1000, Call (Log (JStr ''focus'') JUndefined))]
             @ replicate 20 (1000, Call (Log (JStr ''copy'') JUndefined))) (init 0))]"
proof -
  let ?c = "(1000::int, Call (Log (JStr ''copy'') JUndefined))"
  let ?f = "(1000::int, Call (Log (JStr ''focus'') JUndefined))"
  let ?ts = "replicate 20 ?c @ [?f] @ replicate 21 ?c"
  let ?us = "replicate 20 ?c @ [?f] @ replicate 20 ?c"
  have a: "(''copy'', 40) \<in> set caps" by (simp add: caps_def)
  have b: "\<forall>x \<in> set ?ts. fst x - minuteWindowStart (init 0) < 60000"
    "\<forall>x \<in> set ?us. fst x - minuteWindowStart (init 0) < 60000"
    by (auto simp: init_def)
  have c: "2000 - minuteWindowStart (init 0) < 60000" by (simp add: init_def)
  have n: "counter ''copy'' (counters (init 0)) + submissions ''copy'' ?ts = 41"
    "counter ''copy'' (counters (init 0)) + submissions ''copy'' ?us = 40"
    by (simp_all add: submissions_def init_def no_counts_def counter_def)
  note t = rate_limit_window [OF a b(1) c, where e = browser and p = JUndefined, unfolded Let_def n]
  note u = rate_limit_window [OF a b(2) c, where e = browser and p = JUndefined, unfolded Let_def n]
  have "held (pushEvent browser 2000 (JStr ''copy'') JUndefined (run browser ?ts (init 0)))
        = held ((run browser ?ts (init 0))
            \<lparr>counters := counters (pushEvent browser 2000 (JStr ''copy'') JUndefined
                                      (run browser ?ts (init 0)))\<rparr>)"
    using t by simp
  then have x: "held (pushEvent browser 2000 (JStr ''copy'') JUndefined (run browser ?ts (init 0)))
        = held (run browser ?ts (init 0))"
    by (simp add: held_def)
  show ?thesis using t u x by simp
qed

subsection \<open>C3: the window reset\<close>

text \<open>
  Claim C3. A push at least 60000 ms after the window start resets all five counters and
  moves the window start to the current time before the guards run: the event is
  enqueued whatever the counters were, and afterwards every counter is 0 except that of
  the pushed type, which is 1 when that type is capped.
\<close>

theorem window_reset:
  assumes "now - minuteWindowStart s \<ge> 60000"
  shows "resetMinuteWindowIfNeeded now s = s\<lparr>minuteWindowStart := now, counters := no_counts\<rparr>
         \<and> held (pushEvent e now ty p s) = held s @ [event e now ty p s]
         \<and> minuteWindowStart (pushEvent e now ty p s) = now
         \<and> (\<forall>t. counter t (counters (pushEvent e now ty p s)) =
                  (if ty = JStr t \<and> t \<in> fst ` set caps then 1 else 0))"
  using assms admitted_after_reset [OF assms] counters_after_reset [OF assms]
  by (simp add: held_pushEvent pushEvent_window) (simp add: resetMinuteWindowIfNeeded_def)

theorem window_reset_witness:
  "60000 \<le> 60000 - minuteWindowStart ((init 0)\<lparr>counters := no_counts\<lparr>copy := 41\<rparr>\<rparr>)
   \<and> \<not> admitted 59999 (JStr ''copy'') ((init 0)\<lparr>counters := no_counts\<lparr>copy := 41\<rparr>\<rparr>)
   \<and> held (pushEvent browser 60000 (JStr ''copy'') JUndefined
              ((init 0)\<lparr>counters := no_counts\<lparr>copy := 41\<rparr>\<rparr>)) =
       [event browser 60000 (JStr ''copy'') JUndefined (init 0)]
   \<and> counters (pushEvent browser 60000 (JStr ''copy'') JUndefined
              ((init 0)\<lparr>counters := no_counts\<lparr>copy := 41\<rparr>\<rparr>)) = no_counts\<lparr>copy := 1\<rparr>"
proof -
  let ?s = "(init 0)\<lparr>counters := no_counts\<lparr>copy := 41\<rparr>\<rparr>"
  have h: "60000 \<le> 60000 - minuteWindowStart ?s" by (simp add: init_def)
  have n: "\<not> admitted 59999 (JStr ''copy'') ?s"
    by (simp add: admitted_def resetMinuteWindowIfNeeded_def capped_def init_def no_counts_def)
  have c: "counters (pushEvent browser 60000 (JStr ''copy'') JUndefined ?s) = no_counts\<lparr>copy := 1\<rparr>"
    by (simp add: pushEvent_window resetMinuteWindowIfNeeded_def capped_def init_def no_counts_def)
  from window_reset [OF h, of browser "JStr ''copy''" JUndefined]
  have "held (pushEvent browser 60000 (JStr ''copy'') JUndefined ?s) =
        held ?s @ [event browser 60000 (JStr ''copy'') JUndefined ?s]" by blast
  then show ?thesis using h n c by (simp add: held_def init_def event_def)
qed

subsection \<open>C4: the batch and its trimmed form\<close>

text \<open>
  Claim C4. A flush of a non-empty queue takes the first 30 events at most off the queue
  as its batch. When the serialization of the object that holds the batch is longer than
  30000 bytes, what is sent is the object that holds the batch in trimmed form: every
  event keeps its \<^verbatim>\<open>ts\<close>, \<^verbatim>\<open>type\<close>, \<^verbatim>\<open>task_id\<close>, \<^verbatim>\<open>session_id\<close> and \<^verbatim>\<open>page\<close>, has
  the fixed marker as its payload and nothing else. Otherwise the object with the batch
  as it is is sent. (When a serialization throws, nothing is sent and the batch is back
  in the queue.)
\<close>

theorem flush_batch_trim:
  assumes "queue s \<noteq> []"
  shows "let batch = take 30 (queue s);
             full = JObj [(''events'', JArr batch)];
             small = JObj [(''events'', JArr (map trimmed batch))];
             s' = flush e now b s
         in batch \<noteq> [] \<and> length batch \<le> 30 \<and> queue s = batch @ drop 30 (queue s)
            \<and> (case stringify e full of
                  None \<Rightarrow> queue s' = queue s \<and> outbox s' = outbox s
                | Some body \<Rightarrow>
                    if length body \<le> 30000
                    then queue s' = drop 30 (queue s) \<and> outbox s' = outbox s @ [full]
                    else (case stringify e small of
                            None \<Rightarrow> queue s' = queue s \<and> outbox s' = outbox s
                          | Some body' \<Rightarrow>
                              queue s' = drop 30 (queue s) \<and> outbox s' = outbox s @ [small]))
            \<and> (\<forall>ev. keys (trimmed ev)
                        = [''ts'', ''type'', ''task_id'', ''session_id'', ''payload'', ''page'']
                  \<and> getprop (trimmed ev) ''ts'' = getprop ev ''ts''
                  \<and> getprop (trimmed ev) ''type'' = getprop ev ''type''
                  \<and> getprop (trimmed ev) ''task_id'' = getprop ev ''task_id''
                  \<and> getprop (trimmed ev) ''session_id'' = getprop ev ''session_id''
                  \<and> getprop (trimmed ev) ''page'' = getprop ev ''page''
                  \<and> getprop (trimmed ev) ''payload'' = JObj [(''note'', JStr ''trimmed'')])"
proof -
  let ?batch = "take 30 (queue s)"
  let ?full = "JObj [(''events'', JArr ?batch)]"
  let ?small = "JObj [(''events'', JArr (map trimmed ?batch))]"
  have thrown: "queue (flush e now b s) = queue s \<and> outbox (flush e now b s) = outbox s"
    if "stringify e (payload_of e ?batch) = None"
    by (simp add: flush_thrown [OF assms that])
  have sent: "queue (flush e now b s) = drop 30 (queue s)
              \<and> outbox (flush e now b s) = outbox s @ [payload_of e ?batch]"
    if "stringify e (payload_of e ?batch) \<noteq> None"
    using flush_sent(1,2) [OF assms that] by simp
  have none: "payload_of e ?batch = ?full" if "stringify e ?full = None"
    using that
    by (simp add: payload_of_def approxByteSize_def events_payload_def MAX_PAYLOAD_BYTES_def)
  have fits: "payload_of e ?batch = ?full"
    if "stringify e ?full = Some body" and "length body \<le> 30000" for body
    using that
    by (simp add: payload_of_def approxByteSize_def events_payload_def MAX_PAYLOAD_BYTES_def)
  have over: "payload_of e ?batch = ?small"
    if "stringify e ?full = Some body" and "\<not> length body \<le> 30000" for body
    using that
    by (simp add: payload_of_def approxByteSize_def events_payload_def MAX_PAYLOAD_BYTES_def)
  have main: "case stringify e ?full of
                None \<Rightarrow> queue (flush e now b s) = queue s \<and> outbox (flush e now b s) = outbox s
              | Some body \<Rightarrow>
                  if length body \<le> 30000
                  then queue (flush e now b s) = drop 30 (queue s)
                       \<and> outbox (flush e now b s) = outbox s @ [?full]
                  else (case stringify e ?small of
                          None \<Rightarrow> queue (flush e now b s) = queue s
                                  \<and> outbox (flush e now b s) = outbox s
                        | Some body' \<Rightarrow>
                            queue (flush e now b s) = drop 30 (queue s)
                            \<and> outbox (flush e now b s) = outbox s @ [?small])"
  proof (cases "stringify e ?full")
    case None
    then show ?thesis using thrown none [OF None] by simp
  next
    case (Some body)
    show ?thesis
    proof (cases "length body \<le> 30000")
      case True
      then show ?thesis using Some sent fits [OF Some True] by simp
    next
      case False
      show ?thesis
      proof (cases "stringify e ?small")
        case None
        then show ?thesis using Some False thrown over [OF Some False] by simp
      next
        case (Some body')
        then show ?thesis
          using \<open>stringify e ?full = Some body\<close> False sent
            over [OF \<open>stringify e ?full = Some body\<close> False]
          by simp
      qed
    qed
  qed
  have keep: "keys (trimmed ev)
                = [''ts'', ''type'', ''task_id'', ''session_id'', ''payload'', ''page'']
              \<and> getprop (trimmed ev) ''ts'' = getprop ev ''ts''
              \<and> getprop (trimmed ev) ''type'' = getprop ev ''type''
              \<and> getprop (trimmed ev) ''task_id'' = getprop ev ''task_id''
              \<and> getprop (trimmed ev) ''session_id'' = getprop ev ''session_id''
              \<and> getprop (trimmed ev) ''page'' = getprop ev ''page''
              \<and> getprop (trimmed ev) ''payload'' = JObj [(''note'', JStr ''trimmed'')]" for ev
    by (simp add: trimmed_def)
  show ?thesis
    unfolding Let_def using assms main keep by simp
qed

theorem flush_batch_trim_witness:
  "outbox (flush browser 2000 False
            (run browser [(1000, Call (Log (JStr ''note'') (JStr (replicate 30000 CHR ''a''))))]
               (init 0)))
     = [JObj [(''events'', JArr
          [JObj [(''ts'', JStr ''1970-01-01T00:00:01.000Z''), (''type'', JStr ''note''),
                 (''task_id'', JNull), (''session_id'', JNull),
                 (''payload'', JObj [(''note'', JStr ''trimmed'')]),
                 (''page'', JStr ''/tasks/7'')]])]]
   \<and> queue (flush browser 2000 False
            (run browser [(1000, Call (Log (JStr ''note'') (JStr (replicate 30000 CHR ''a''))))]
               (init 0))) = []"
proof -
  let ?ev = "event browser 1000 (JStr ''note'') (JStr (replicate 30000 CHR ''a'')) (init 0)"
  let ?s = "run browser [(1000, Call (Log (JStr ''note'') (JStr (replicate 30000 CHR ''a''))))] (init 0)"
  have q: "queue ?s = [?ev]" by (simp add: eval_tracker)
  have o: "outbox ?s = []" by (simp add: eval_tracker)
  have big: "case stringify browser (JObj [(''events'', JArr [?ev])]) of
               None \<Rightarrow> False | Some body \<Rightarrow> 30000 < length body"
    by (simp add: eval_platform eval_tracker length_concat sum_list_replicate)
  have ok: "stringify browser (JObj [(''events'', JArr (map trimmed [?ev]))]) \<noteq> None"
    by (simp add: eval_platform eval_tracker)
  have tr: "trimmed ?ev =
            JObj [(''ts'', JStr ''1970-01-01T00:00:01.000Z''), (''type'', JStr ''note''),
                  (''task_id'', JNull), (''session_id'', JNull),
                  (''payload'', JObj [(''note'', JStr ''trimmed'')]),
                  (''page'', JStr ''/tasks/7'')]"
    by (simp add: eval_platform eval_tracker)
  have ne: "queue ?s \<noteq> []" using q by simp
  have "outbox (flush browser 2000 False ?s) = [JObj [(''events'', JArr [trimmed ?ev])]]
        \<and> queue (flush browser 2000 False ?s) = []"
    using flush_batch_trim [OF ne, of browser 2000 False] big ok
    unfolding q o Let_def by (auto split: option.splits if_splits)
  then show ?thesis unfolding tr by simp
qed

subsection \<open>C5: the fields of a delivered event\<close>

text \<open>
  Claim C5, as the code has it. Every payload the tracker delivers, in any run from
  loading, was serialized, is an object whose \<^verbatim>\<open>events\<close> list holds between 1 and 30
  events, and has one of two forms. Untrimmed, of at most 30000 bytes: every event
  object has exactly the properties \<^verbatim>\<open>ts\<close>, \<^verbatim>\<open>type\<close>, \<^verbatim>\<open>task_id\<close>, \<^verbatim>\<open>session_id\<close>,
  \<^verbatim>\<open>payload\<close>, \<^verbatim>\<open>page\<close> and \<^verbatim>\<open>ua\<close>. Trimmed: every event object has exactly the first
  six, without \<^verbatim>\<open>ua\<close>, and the marker as its payload. In the request body each event
  has these same fields, except that \<^verbatim>\<open>type\<close> is left out of an event that was logged
  with the type \<^verbatim>\<open>undefined\<close>.
\<close>

theorem delivered_event_fields:
  "\<forall>p \<in> set (outbox (run e ts (init t0))).
     p = JObj [(''events'', JArr (events_of p))]
     \<and> events_of p \<noteq> [] \<and> length (events_of p) \<le> 30
     \<and> stringify e p \<noteq> None
     \<and> ((\<forall>ev \<in> set (events_of p).
            keys ev = [''ts'', ''type'', ''task_id'', ''session_id'', ''payload'', ''page'', ''ua'']
            \<and> sent_keys ev =
                (if getprop ev ''type'' = JUndefined
                 then [''ts'', ''task_id'', ''session_id'', ''payload'', ''page'', ''ua'']
                 else [''ts'', ''type'', ''task_id'', ''session_id'', ''payload'', ''page'', ''ua'']))
          \<and> (case stringify e p of Some body \<Rightarrow> length body \<le> 30000 | None \<Rightarrow> False)
          \<or> (\<forall>ev \<in> set (events_of p).
                keys ev = [''ts'', ''type'', ''task_id'', ''session_id'', ''payload'', ''page'']
                \<and> sent_keys ev =
                    (if getprop ev ''type'' = JUndefined
                     then [''ts'', ''task_id'', ''session_id'', ''payload'', ''page'']
                     else [''ts'', ''type'', ''task_id'', ''session_id'', ''payload'', ''page''])
                \<and> getprop ev ''payload'' = JObj [(''note'', JStr ''trimmed'')]))"
proof
  fix p
  assume "p \<in> set (outbox (run e ts (init t0)))"
  then have w: "wf_payload e p"
    using inv_reachable [of e ts t0] by (simp add: inv_def outbox_ok_def)
  have s: "stringify e p \<noteq> None"
    using w by (auto simp: wf_payload_def split: option.splits)
  have a: "keys ev = [''ts'', ''type'', ''task_id'', ''session_id'', ''payload'', ''page'', ''ua'']
           \<and> sent_keys ev =
               (if getprop ev ''type'' = JUndefined
                then [''ts'', ''task_id'', ''session_id'', ''payload'', ''page'', ''ua'']
                else [''ts'', ''type'', ''task_id'', ''session_id'', ''payload'', ''page'', ''ua''])"
    if "wf_event ev" for ev
    using that sent_keys_event [OF that]
    by (simp add: wf_event_def event_keys_def event_keys_untyped_def)
  have b: "keys ev = [''ts'', ''type'', ''task_id'', ''session_id'', ''payload'', ''page'']
           \<and> sent_keys ev =
               (if getprop ev ''type'' = JUndefined
                then [''ts'', ''task_id'', ''session_id'', ''payload'', ''page'']
                else [''ts'', ''type'', ''task_id'', ''session_id'', ''payload'', ''page''])
           \<and> getprop ev ''payload'' = JObj [(''note'', JStr ''trimmed'')]"
    if "wf_trimmed ev" for ev
    using that sent_keys_trimmed [OF that]
    by (simp add: wf_trimmed_def trimmed_keys_def trimmed_keys_untyped_def marker_def)
  show "p = JObj [(''events'', JArr (events_of p))]
     \<and> events_of p \<noteq> [] \<and> length (events_of p) \<le> 30
     \<and> stringify e p \<noteq> None
     \<and> ((\<forall>ev \<in> set (events_of p).
            keys ev = [''ts'', ''type'', ''task_id'', ''session_id'', ''payload'', ''page'', ''ua'']
            \<and> sent_keys ev =
                (if getprop ev ''type'' = JUndefined
                 then [''ts'', ''task_id'', ''session_id'', ''payload'', ''page'', ''ua'']
                 else [''ts'', ''type'', ''task_id'', ''session_id'', ''payload'', ''page'', ''ua'']))
          \<and> (case stringify e p of Some body \<Rightarrow> length body \<le> 30000 | None \<Rightarrow> False)
          \<or> (\<forall>ev \<in> set (events_of p).
                keys ev = [''ts'', ''type'', ''task_id'', ''session_id'', ''payload'', ''page'']
                \<and> sent_keys ev =
                    (if getprop ev ''type'' = JUndefined
                     then [''ts'', ''task_id'', ''session_id'', ''payload'', ''page'']
                     else [''ts'', ''type'', ''task_id'', ''session_id'', ''payload'', ''page''])
                \<and> getprop ev ''payload'' = JObj [(''note'', JStr ''trimmed'')]))"
    using w s a b unfolding wf_payload_def by blast
qed

theorem delivered_event_fields_witness:
  \<open>outbox (run browser
       [(1000, Call (Log (JStr ''focus'') JUndefined)),
        (1500, Call (Log JUndefined JUndefined)),
        (2000, Call Flush)] (init 0))
     = [JObj [(''events'', JArr
          [JObj [(''ts'', JStr ''1970-01-01T00:00:01.000Z''), (''type'', JStr ''focus''),
                 (''task_id'', JNull), (''session_id'', JNull), (''payload'', JObj []),
                 (''page'', JStr ''/tasks/7''), (''ua'', JStr ''Mozilla/5.0'')],
           JObj [(''ts'', JStr ''1970-01-01T00:00:01.500Z''), (''type'', JUndefined),
                 (''task_id'', JNull), (''session_id'', JNull), (''payload'', JObj []),
                 (''page'', JStr ''/tasks/7''), (''ua'', JStr ''Mozilla/5.0'')]])]]
   \<and> sent_keys
        (JObj [(''ts'', JStr ''1970-01-01T00:00:01.000Z''), (''type'', JStr ''focus''),
               (''task_id'', JNull), (''session_id'', JNull), (''payload'', JObj []),
               (''page'', JStr ''/tasks/7''), (''ua'', JStr ''Mozilla/5.0'')])
       = [''ts'', ''type'', ''task_id'', ''session_id'', ''payload'', ''page'', ''ua'']
   \<and> sent_keys
        (JObj [(''ts'', JStr ''1970-01-01T00:00:01.500Z''), (''type'', JUndefined),
               (''task_id'', JNull), (''session_id'', JNull), (''payload'', JObj []),
               (''page'', JStr ''/tasks/7''), (''ua'', JStr ''Mozilla/5.0'')])
       = [''ts'', ''task_id'', ''session_id'', ''payload'', ''page'', ''ua'']
   \<and> (case stringify browser (last (outbox (run browser
          [(1000, Call (Log (JStr ''focus'') JUndefined)),
           (1500, Call (Log JUndefined JUndefined)),
           (2000, Call Flush)] (init 0)))) of
         Some body \<Rightarrow> length body \<le> 30000 | None \<Rightarrow> False)
   \<and> stringify browser (last (outbox (run browser
          [(1000, Call (Log (JStr ''focus'') JUndefined)),
           (1500, Call (Log JUndefined JUndefined)),
           (2000, Call Flush)] (init 0)))) =
       Some ''{"events":[{"ts":"1970-01-01T00:00:01.000Z","type":"focus","task_id":null,"session_id":null,"payload":{},"page":"/tasks/7","ua":"Mozilla/5.0"},{"ts":"1970-01-01T00:00:01.500Z","task_id":null,"session_id":null,"payload":{},"page":"/tasks/7","ua":"Mozilla/5.0"}]}''\<close>
proof -
  let ?tr = "[(1000, Call (Log (JStr ''focus'') JUndefined)),
              (1500, Call (Log JUndefined JUndefined)),
              (2000, Call Flush)]"
  let ?a = "JObj [(''ts'', JStr ''1970-01-01T00:00:01.000Z''), (''type'', JStr ''focus''),
                  (''task_id'', JNull), (''session_id'', JNull), (''payload'', JObj []),
                  (''page'', JStr ''/tasks/7''), (''ua'', JStr ''Mozilla/5.0'')]"
  let ?b = "JObj [(''ts'', JStr ''1970-01-01T00:00:01.500Z''), (''type'', JUndefined),
                  (''task_id'', JNull), (''session_id'', JNull), (''payload'', JObj []),
                  (''page'', JStr ''/tasks/7''), (''ua'', JStr ''Mozilla/5.0'')]"
  have o: "outbox (run browser ?tr (init 0)) = [JObj [(''events'', JArr [?a, ?b])]]"
    by (simp add: eval_platform eval_tracker)
  have k: "keys ?a \<noteq> [''ts'', ''type'', ''task_id'', ''session_id'', ''payload'', ''page'']"
    by simp
  have body: \<open>stringify browser (JObj [(''events'', JArr [?a, ?b])]) =
       Some ''{"events":[{"ts":"1970-01-01T00:00:01.000Z","type":"focus","task_id":null,"session_id":null,"payload":{},"page":"/tasks/7","ua":"Mozilla/5.0"},{"ts":"1970-01-01T00:00:01.500Z","task_id":null,"session_id":null,"payload":{},"page":"/tasks/7","ua":"Mozilla/5.0"}]}''\<close>
    by (simp add: eval_platform)
  show ?thesis
    using delivered_event_fields [of browser ?tr 0] k body
    unfolding o by simp
qed

text \<open>
  Claim C5 as stated fails on the trimmed form: an event with a payload of 30000
  characters is flushed, and the event delivered has no \<^verbatim>\<open>ua\<close>, as an object and in
  the request body.
\<close>

theorem trimmed_event_fields_counterexample:
  "map keys (events_of (last (outbox (run browser
       [(1000, Call (Log (JStr ''note'') (JStr (replicate 30000 CHR ''a'')))),
        (2000, Call Flush)] (init 0)))))
   = [[''ts'', ''type'', ''task_id'', ''session_id'', ''payload'', ''page'']]
   \<and> map sent_keys (events_of (last (outbox (run browser
       [(1000, Call (Log (JStr ''note'') (JStr (replicate 30000 CHR ''a'')))),
        (2000, Call Flush)] (init 0)))))
   = [[''ts'', ''type'', ''task_id'', ''session_id'', ''payload'', ''page'']]"
  by (simp add: eval_platform eval_tracker events_of_def length_concat sum_list_replicate)

subsection \<open>C6: scheduling a flush\<close>

text \<open>
  Claim C6, evaluated where the code departs from it. A first event schedules a flush
  after 5000 ms; the timer fires and the batch is sent; \<^verbatim>\<open>flushTimer\<close> still holds
  the id of the timer that fired. The next event is enqueued while no flush is scheduled,
  and none is scheduled for it: the queue holds one event and no timer is pending.
\<close>

theorem flush_timer_stale:
  "run browser
     [(1000, Call (Log (JStr ''focus'') JUndefined)),
      (6000, TimeoutFires 1),
      (7000, Call (Log (JStr ''focus'') JUndefined))] (init 0)
   = (init 0)
       \<lparr>queue := [event browser 7000 (JStr ''focus'') JUndefined (init 0)],
        lastFlushAt := 6000, flushTimer := Some 1, timeouts := [], nextTimer := 2,
        inflight := [[event browser 1000 (JStr ''focus'') JUndefined (init 0)]],
        outbox := [events_payload [event browser 1000 (JStr ''focus'') JUndefined (init 0)]]\<rparr>"
  by (simp add: eval_platform eval_tracker)

subsection \<open>C7: switching task\<close>

text \<open>
  Claim C7, as the code has it. A \<^verbatim>\<open>setContext\<close> call that supplies a task id
  different from the current one sets the task id and the task-opened timestamp. When a
  previous task is set (the current task id is truthy) it first enqueues exactly one
  \<^verbatim>\<open>task_switch\<close> event, built before the task id is updated (its \<^verbatim>\<open>task_id\<close> is
  the previous task), whose payload carries the previous and the new task id and the
  seconds spent on the previous task, rounded to the nearest second and never negative.
  When no previous task is set, no event is enqueued.
\<close>

theorem setContext_task_switch:
  assumes "taskId \<noteq> PUndefined" and "taskId \<noteq> currentTaskId s"
  shows "case setContext e now (Context sessionId taskId) s of
           Inl err \<Rightarrow> False
         | Inr s' \<Rightarrow>
             currentTaskId s' = taskId \<and> lastTaskOpenedAt s' = now \<and>
             (let n = elapsed_seconds now (lastTaskOpenedAt s);
                  ev = JObj [(''ts'', JStr (toISOString e now)),
                             (''type'', JStr ''task_switch''),
                             (''task_id'', of_prim (currentTaskId s)),
                             (''session_id'',
                                of_prim (if sessionId \<noteq> PUndefined then sessionId
                                         else currentSessionId s)),
                             (''payload'',
                                JObj [(''from_task_id'', of_prim (currentTaskId s)),
                                      (''to_task_id'', of_prim taskId),
                                      (''seconds_spent'', JNum n)]),
                             (''page'', JStr (pathname e)),
                             (''ua'', JStr (userAgent e))]
              in (truthy_prim (currentTaskId s) \<longrightarrow>
                    held s' = held s @ [ev]
                    \<and> (length (queue s) < 29 \<longrightarrow> queue s' = queue s @ [ev]))
                 \<and> (\<not> truthy_prim (currentTaskId s) \<longrightarrow>
                       held s' = held s \<and> queue s' = queue s)
                 \<and> 0 \<le> n
                 \<and> (lastTaskOpenedAt s \<le> now \<longrightarrow>
                       1000 * n - 500 \<le> now - lastTaskOpenedAt s
                       \<and> now - lastTaskOpenedAt s < 1000 * n + 500))"
proof (cases "truthy_prim (currentTaskId s)")
  case True
  let ?p = "JObj [(''from_task_id'', of_prim (currentTaskId s)),
                  (''to_task_id'', of_prim taskId),
                  (''seconds_spent'', JNum (elapsed_seconds now (lastTaskOpenedAt s)))]"
  have r: "0 \<le> elapsed_seconds now (lastTaskOpenedAt s)"
    by (simp add: elapsed_seconds_def)
  have ev: "event e now (JStr ''task_switch'') ?p (with_session sessionId s) =
            JObj [(''ts'', JStr (toISOString e now)),
                  (''type'', JStr ''task_switch''),
                  (''task_id'', of_prim (currentTaskId s)),
                  (''session_id'',
                     of_prim (if sessionId \<noteq> PUndefined then sessionId else currentSessionId s)),
                  (''payload'', ?p),
                  (''page'', JStr (pathname e)),
                  (''ua'', JStr (userAgent e))]"
    by (simp add: event_def with_session_def)
  have q: "queue (pushEvent e now (JStr ''task_switch'') ?p (with_session sessionId s)) =
           queue s @ [event e now (JStr ''task_switch'') ?p (with_session sessionId s)]"
    if "length (queue s) < 29"
    using queue_pushEvent [OF uncapped_task_switch, of "with_session sessionId s" e now ?p] that
    by simp
  show ?thesis
    using True r q elapsed_seconds_round [of now "lastTaskOpenedAt s"]
    by (simp add: setContext_switch [OF assms True] Let_def held_pushEvent uncapped_task_switch ev)
next
  case False
  have r: "0 \<le> elapsed_seconds now (lastTaskOpenedAt s)"
    by (simp add: elapsed_seconds_def)
  show ?thesis
    using False r elapsed_seconds_round [of now "lastTaskOpenedAt s"] assms(1)
    by (simp add: setContext_quiet Let_def)
qed

theorem setContext_task_switch_witness:
  "(case setContext browser 12500 (Context PUndefined (PStr ''t2''))
           ((init 0)\<lparr>currentTaskId := PStr ''t1''\<rparr>) of
      Inl err \<Rightarrow> False
    | Inr s' \<Rightarrow>
        currentTaskId s' = PStr ''t2'' \<and>
        queue s' = [JObj [(''ts'', JStr ''1970-01-01T00:00:12.500Z''),
                          (''type'', JStr ''task_switch''),
                          (''task_id'', JStr ''t1''),
                          (''session_id'', JNull),
                          (''payload'',
                             JObj [(''from_task_id'', JStr ''t1''), (''to_task_id'', JStr ''t2''),
                                   (''seconds_spent'', JNum 13)]),
                          (''page'', JStr ''/tasks/7''),
                          (''ua'', JStr ''Mozilla/5.0'')]])
   \<and> (case setContext browser 12500 (Context PUndefined (PStr ''t2'')) (init 0) of
         Inl err \<Rightarrow> False
       | Inr s' \<Rightarrow> currentTaskId s' = PStr ''t2'' \<and> queue s' = [])"
proof -
  let ?s = "(init 0)\<lparr>currentTaskId := PStr ''t1''\<rparr>"
  have a: "PStr ''t2'' \<noteq> PUndefined" by simp
  have b: "PStr ''t2'' \<noteq> currentTaskId ?s" by simp
  have c: "PStr ''t2'' \<noteq> currentTaskId (init 0)" by (simp add: init_def)
  have n: "elapsed_seconds 12500 (lastTaskOpenedAt ?s) = 13"
    by (simp add: elapsed_seconds_def init_def)
  have h: "queue ?s = []" "queue (init 0) = []" "currentSessionId ?s = PNull"
    by (simp_all add: init_def)
  have t: "truthy_prim (currentTaskId ?s)" "\<not> truthy_prim (currentTaskId (init 0))"
    by (simp_all add: init_def)
  have p: "toISOString browser 12500 = ''1970-01-01T00:00:12.500Z''"
    "pathname browser = ''/tasks/7''" "userAgent browser = ''Mozilla/5.0''"
    by (simp_all add: eval_platform)
  show ?thesis
    using setContext_task_switch [OF a b, where e = browser and now = 12500 and sessionId = PUndefined]
      setContext_task_switch [OF a c, where e = browser and now = 12500 and sessionId = PUndefined]
      n h t p
    by (simp add: Let_def split: sum.splits)
qed

text \<open>
  Claim C7 as stated fails where no task was set before: the first
  \<^verbatim>\<open>setContext({taskId: "t1"})\<close> after loading supplies a task id that differs from
  the current one (\<^verbatim>\<open>null\<close>), and the queue stays empty.
\<close>

theorem setContext_first_task_counterexample:
  "currentTaskId (init 0) \<noteq> PStr ''t1''
   \<and> setContext browser 1000 (Context PUndefined (PStr ''t1'')) (init 0) =
       Inr ((init 0)\<lparr>currentTaskId := PStr ''t1'', lastTaskOpenedAt := 1000,
                     heartbeatTimer := Some 1, intervals := [(1, 10000)], nextTimer := 2\<rparr>)
   \<and> queue ((init 0)\<lparr>currentTaskId := PStr ''t1'', lastTaskOpenedAt := 1000,
                     heartbeatTimer := Some 1, intervals := [(1, 10000)], nextTimer := 2\<rparr>) = []"
  by (simp add: eval_tracker)

subsection \<open>C8: the heartbeat\<close>

text \<open>
  Claim C8. A heartbeat tick with no active task (a falsy current task id) leaves the
  state as it is. With an active task it enqueues exactly one event, of type
  \<^verbatim>\<open>heartbeat\<close>, whose payload is \<^verbatim>\<open>seconds_on_task\<close>: the time since the task was
  opened, rounded to the nearest second, and 0 when that time is negative.
\<close>

theorem heartbeat_tick:
  "(\<not> truthy_prim (currentTaskId s) \<longrightarrow> heartbeat e now s = s)
   \<and> (truthy_prim (currentTaskId s) \<longrightarrow>
        (let n = elapsed_seconds now (lastTaskOpenedAt s);
             ev = JObj [(''ts'', JStr (toISOString e now)),
                        (''type'', JStr ''heartbeat''),
                        (''task_id'', of_prim (currentTaskId s)),
                        (''session_id'', of_prim (currentSessionId s)),
                        (''payload'', JObj [(''seconds_on_task'', JNum n)]),
                        (''page'', JStr (pathname e)),
                        (''ua'', JStr (userAgent e))]
         in held (heartbeat e now s) = held s @ [ev]
            \<and> (length (queue s) < 29 \<longrightarrow> queue (heartbeat e now s) = queue s @ [ev])
            \<and> (now < lastTaskOpenedAt s \<longrightarrow> n = 0)
            \<and> (lastTaskOpenedAt s \<le> now \<longrightarrow>
                  1000 * n - 500 \<le> now - lastTaskOpenedAt s
                  \<and> now - lastTaskOpenedAt s < 1000 * n + 500)))"
proof -
  let ?p = "JObj [(''seconds_on_task'', JNum (elapsed_seconds now (lastTaskOpenedAt s)))]"
  have ev: "event e now (JStr ''heartbeat'') ?p s =
            JObj [(''ts'', JStr (toISOString e now)),
                  (''type'', JStr ''heartbeat''),
                  (''task_id'', of_prim (currentTaskId s)),
                  (''session_id'', of_prim (currentSessionId s)),
                  (''payload'', ?p),
                  (''page'', JStr (pathname e)),
                  (''ua'', JStr (userAgent e))]"
    by (simp add: event_def)
  have q: "queue (pushEvent e now (JStr ''heartbeat'') ?p s) =
           queue s @ [event e now (JStr ''heartbeat'') ?p s]"
    if "length (queue s) < 29"
    using queue_pushEvent [OF uncapped_heartbeat that] .
  show ?thesis
    using elapsed_seconds_round [of now "lastTaskOpenedAt s"] q
    by (simp add: heartbeat_def Let_def held_pushEvent uncapped_heartbeat ev)
qed

theorem heartbeat_tick_witness:
  "heartbeat browser 12500 (init 0) = init 0
   \<and> held (heartbeat browser 12500 ((init 0)\<lparr>currentTaskId := PStr ''t1''\<rparr>)) =
       [JObj [(''ts'', JStr ''1970-01-01T00:00:12.500Z''),
              (''type'', JStr ''heartbeat''),
              (''task_id'', JStr ''t1''),
              (''session_id'', JNull),
              (''payload'', JObj [(''seconds_on_task'', JNum 13)]),
              (''page'', JStr ''/tasks/7''),
              (''ua'', JStr ''Mozilla/5.0'')]]
   \<and> queue (heartbeat browser 12500 ((init 0)\<lparr>currentTaskId := PStr ''t1''\<rparr>)) =
       held (heartbeat browser 12500 ((init 0)\<lparr>currentTaskId := PStr ''t1''\<rparr>))"
proof -
  let ?s = "(init 0)\<lparr>currentTaskId := PStr ''t1''\<rparr>"
  have a: "\<not> truthy_prim (currentTaskId (init 0))" by (simp add: init_def)
  have b: "truthy_prim (currentTaskId ?s)" by simp
  have n: "elapsed_seconds 12500 (lastTaskOpenedAt ?s) = 13"
    by (simp add: elapsed_seconds_def init_def)
  have h: "held ?s = []" "queue ?s = []" "currentSessionId ?s = PNull"
    by (simp_all add: held_def init_def)
  have t: "toISOString browser 12500 = ''1970-01-01T00:00:12.500Z''"
    "pathname browser = ''/tasks/7''" "userAgent browser = ''Mozilla/5.0''"
    by (simp_all add: eval_platform)
  show ?thesis
    using heartbeat_tick [of "init 0" browser 12500] heartbeat_tick [of ?s browser 12500]
      a b n h t
    by (simp add: Let_def)
qed

subsection \<open>C9: nothing is thrown to the page\<close>

text \<open>
  Claim C9, evaluated where the code departs from it. \<^verbatim>\<open>setContext()\<close>, called with
  no argument, throws a TypeError to the host page: the parameter is destructured and
  has no default.
\<close>

theorem setContext_without_argument:
  "tracker browser 1000 (SetContext Nullish) (init 0) = Inl TypeError"
  by (simp add: setContext_def)

subsection \<open>C10: the same task again\<close>

text \<open>
  Claim C10. A \<^verbatim>\<open>setContext\<close> call whose task id equals the current one enqueues
  nothing and still sets the task-opened timestamp to the current time: a later
  heartbeat, and a later switch to another task, report the time since that call.
\<close>

theorem setContext_same_task:
  assumes "taskId \<noteq> PUndefined" and "currentTaskId s = taskId"
  shows "case setContext e now (Context sessionId taskId) s of
           Inl err \<Rightarrow> False
         | Inr s' \<Rightarrow>
             held s' = held s \<and> queue s' = queue s \<and> outbox s' = outbox s
             \<and> currentTaskId s' = taskId \<and> lastTaskOpenedAt s' = now
             \<and> (truthy_prim taskId \<longrightarrow>
                  held (heartbeat e later s') =
                    held s' @ [event e later (JStr ''heartbeat'')
                                 (JObj [(''seconds_on_task'', JNum (elapsed_seconds later now))]) s'])
             \<and> (truthy_prim taskId \<and> next \<noteq> PUndefined \<and> next \<noteq> taskId \<longrightarrow>
                  (case setContext e later (Context PUndefined next) s' of
                     Inl err \<Rightarrow> False
                   | Inr s'' \<Rightarrow>
                       held s'' =
                         held s' @ [event e later (JStr ''task_switch'')
                                      (JObj [(''from_task_id'', of_prim taskId),
                                             (''to_task_id'', of_prim next),
                                             (''seconds_spent'', JNum (elapsed_seconds later now))]) s']))"
proof -
  let ?s' = "startHeartbeat
               ((with_session sessionId s)\<lparr>currentTaskId := taskId, lastTaskOpenedAt := now\<rparr>)"
  have r: "setContext e now (Context sessionId taskId) s = Inr ?s'"
    using assms by (simp add: setContext_quiet)
  have h: "truthy_prim taskId \<Longrightarrow>
           held (heartbeat e later ?s') =
             held ?s' @ [event e later (JStr ''heartbeat'')
                           (JObj [(''seconds_on_task'', JNum (elapsed_seconds later now))]) ?s']"
    by (simp add: heartbeat_def held_pushEvent uncapped_heartbeat)
  have w: "with_session PUndefined ?s' = ?s'" by (simp add: with_session_def)
  have t: "truthy_prim taskId \<Longrightarrow> next \<noteq> PUndefined \<Longrightarrow> next \<noteq> taskId \<Longrightarrow>
           (case setContext e later (Context PUndefined next) ?s' of
              Inl err \<Rightarrow> False
            | Inr s'' \<Rightarrow>
                held s'' =
                  held ?s' @ [event e later (JStr ''task_switch'')
                                (JObj [(''from_task_id'', of_prim taskId),
                                       (''to_task_id'', of_prim next),
                                       (''seconds_spent'', JNum (elapsed_seconds later now))]) ?s'])"
    by (subst setContext_switch) (simp_all add: w held_pushEvent uncapped_task_switch)
  show ?thesis
    unfolding r using h t by simp
qed

theorem setContext_same_task_witness:
  "(case setContext browser 5000 (Context PUndefined (PStr ''t1''))
           ((init 0)\<lparr>currentTaskId := PStr ''t1''\<rparr>) of
      Inl err \<Rightarrow> False
    | Inr s' \<Rightarrow>
        held s' = [] \<and> lastTaskOpenedAt s' = 5000 \<and>
        held (heartbeat browser 17500 s') =
          [event browser 17500 (JStr ''heartbeat'') (JObj [(''seconds_on_task'', JNum 13)]) s'])"
proof -
  let ?s = "(init 0)\<lparr>currentTaskId := PStr ''t1''\<rparr>"
  have a: "PStr ''t1'' \<noteq> PUndefined" by simp
  have b: "currentTaskId ?s = PStr ''t1''" by simp
  have n: "elapsed_seconds 17500 5000 = 13" by (simp add: elapsed_seconds_def)
  have h: "held ?s = []" by (simp add: held_def init_def)
  show ?thesis
    using setContext_same_task [OF a b, where e = browser and now = 5000
        and sessionId = PUndefined and later = 17500 and ?next = "PStr ''t2''"] n h
    by (cases "setContext browser 5000 (Context PUndefined (PStr ''t1'')) ?s") simp_all
qed

end
